theory Spec2Isabelle
  imports Main "HOL-Library.Word"
begin

unbundle bit_operations_syntax

section \<open>libambit.c: device identification, session lifecycle, log entries\<close>

text \<open>
  A shallow embedding of \<^verbatim>\<open>src/libambit/libambit.c\<close>. Octets are \<open>8 word\<close>,
  \<^verbatim>\<open>wchar_t\<close> is \<open>32 word\<close> (Linux, where the hidraw back end lives), USB ids are
  \<open>16 word\<close>. A pointer that may be \<^verbatim>\<open>NULL\<close> is an \<open>option\<close>. A read through a null
  pointer or past the end of a buffer is a \<open>fault\<close>.
\<close>

type_synonym byte = "8 word"
type_synonym wchar = "32 word"
type_synonym ptr = nat

datatype fault = Null_dereference | Out_of_bounds

subsection \<open>C strings and fixed-size character arrays\<close>

text \<open>The string a \<^verbatim>\<open>char\<close> array holds: the octets before its first NUL.\<close>

definition cstr :: "byte list \<Rightarrow> byte list" where
  "cstr mem = takeWhile (\<lambda>b. b \<noteq> 0) mem"

text \<open>
  \<^verbatim>\<open>strncpy(dst, src, n)\<close>: the first \<open>n\<close> octets of \<open>dst\<close> become the string at
  \<open>src\<close>, cut at \<open>n\<close> octets and padded with NULs up to \<open>n\<close>; no terminator is added
  when the string has \<open>n\<close> octets or more. \<open>dst\<close> has at least \<open>n\<close> octets at every call
  of the source.
\<close>

definition strncpy :: "byte list \<Rightarrow> byte list \<Rightarrow> nat \<Rightarrow> byte list" where
  "strncpy dst src n = take n (cstr src @ replicate n 0) @ drop n dst"

subsection \<open>version_string\<close>

text \<open>The decimal digits \<^verbatim>\<open>%d\<close> prints.\<close>

definition digit_char :: "nat \<Rightarrow> char" where
  "digit_char d = ''0123456789'' ! d"

fun dec :: "nat \<Rightarrow> string" where
  "dec n = (if n < 10 then [digit_char n] else dec (n div 10) @ [digit_char (n mod 10)])"

declare dec.simps [simp del]

definition printf_d :: "int \<Rightarrow> string" where
  "printf_d i = (if i < 0 then CHR ''-'' # dec (nat (- i)) else dec (nat i))"

text \<open>
  \<^verbatim>\<open>snprintf(string, size, ...)\<close>: the string left in the destination, at most
  \<open>n - 1\<close> characters of the formatted text; nothing is written when the size \<open>n\<close> is 0.
\<close>

definition snprintf :: "string \<Rightarrow> nat \<Rightarrow> string \<Rightarrow> string" where
  "snprintf old n formatted = (if n = 0 then old else take (n - 1) formatted)"

definition LIBAMBIT_VERSION_LENGTH :: nat where
  "LIBAMBIT_VERSION_LENGTH = 13"

text \<open>\<^verbatim>\<open>uint8_t version[4]\<close>.\<close>

type_synonym version = "byte \<times> byte \<times> byte \<times> byte"

text \<open>
  The octets are promoted to \<^verbatim>\<open>int\<close> before the shifts and the bitwise or; the values
  stay below \<open>2 ^ 16\<close>, so \<open>int\<close> models the promoted operands without wrap-around.
  \<open>string\<close> is the string the destination holds, \<open>None\<close> a null pointer.
\<close>

definition version_string :: "string option \<Rightarrow> version option \<Rightarrow> string option" where
  "version_string string version =
     (case string of
        None \<Rightarrow> None
      | Some old \<Rightarrow>
          (case version of
             None \<Rightarrow> Some old
           | Some (v0, v1, v2, v3) \<Rightarrow>
               Some (snprintf old (LIBAMBIT_VERSION_LENGTH + 1)
                 (printf_d (uint v0) @ ''.'' @ printf_d (uint v1) @ ''.'' @
                  printf_d (push_bit 0 (uint v2) OR push_bit 8 (uint v3))))))"

subsection \<open>iconv and wcs2nutf8\<close>

text \<open>
  Whether \<^verbatim>\<open>strdup\<close>, \<^verbatim>\<open>calloc\<close>, \<^verbatim>\<open>malloc\<close> and \<^verbatim>\<open>iconv_open\<close> succeed is not up
  to the caller. A \<open>plan\<close> lists the outcome of each successive request, oldest first;
  a request made after the plan is used up succeeds.
\<close>

type_synonym plan = "bool list"

fun acquire :: "plan \<Rightarrow> bool \<times> plan" where
  "acquire [] = (True, [])"
| "acquire (ok # rest) = (ok, rest)"

text \<open>
  \<^verbatim>\<open>iconv\<close> from \<^verbatim>\<open>WCHAR_T\<close> to \<^verbatim>\<open>UTF-8\<close> belongs to the C library, not to this
  repository, and the spec treats it as a black box. The model follows the GNU C
  library, which the hidraw paths of the source run on: wide characters are converted one by one, left to right; a character below
  \<open>0x80\<close> is one octet, a character up to \<open>0x7fffffff\<close> outside the surrogates
  \<open>0xd800..0xdfff\<close> is a sequence of 2 to 6 octets, anything else is invalid
  (\<^verbatim>\<open>EILSEQ\<close>); conversion stops with \<^verbatim>\<open>E2BIG\<close> when the output is full before the next
  character, or when the next sequence does not fit. Whole wide characters always reach
  \<^verbatim>\<open>iconv\<close> here, so \<^verbatim>\<open>EINVAL\<close> (incomplete input) cannot occur.
\<close>

datatype iconv_errno = E2BIG | EILSEQ

text \<open>
  For a character of \<open>0x80\<close> or more: the number of octets of its sequence, the marker
  bits of the first octet of a sequence of that many octets, and the \<open>k\<close> continuation
  octets, six bits of the character each, the highest first.
\<close>

definition utf8_step :: "wchar \<Rightarrow> nat" where
  "utf8_step wc =
     (if wc < 0x800 then 2 else if wc < 0x10000 then 3 else if wc < 0x200000 then 4
      else if wc < 0x4000000 then 5 else 6)"

definition utf8_lead :: "nat \<Rightarrow> byte" where
  "utf8_lead step =
     (if step = 2 then 0xC0 else if step = 3 then 0xE0 else if step = 4 then 0xF0
      else if step = 5 then 0xF8 else 0xFC)"

fun utf8_tail :: "nat \<Rightarrow> wchar \<Rightarrow> byte list" where
  "utf8_tail 0 wc = []"
| "utf8_tail (Suc k) wc = (0x80 OR ucast (drop_bit (6 * k) wc AND 0x3f)) # utf8_tail k wc"

definition utf8_encode :: "wchar \<Rightarrow> byte list option" where
  "utf8_encode wc =
     (if wc < 0x80 then Some [ucast wc]
      else if wc \<le> 0x7fffffff \<and> (wc < 0xd800 \<or> 0xdfff < wc)
      then Some ((utf8_lead (utf8_step wc) OR ucast (drop_bit (6 * (utf8_step wc - 1)) wc))
                 # utf8_tail (utf8_step wc - 1) wc)
      else None)"

text \<open>
  \<open>iconv ws olen\<close>: \<open>ws\<close> is the input, \<open>olen\<close> the room left in the output. The result
  is \<open>None\<close> for a return value other than \<open>-1\<close> or \<open>Some\<close> of \<^verbatim>\<open>errno\<close>, and the octets
  written (on an error: the octets written before it).
\<close>

fun iconv :: "wchar list \<Rightarrow> nat \<Rightarrow> iconv_errno option \<times> byte list" where
  "iconv [] olen = (None, [])"
| "iconv (wc # rest) olen =
     (if olen = 0 then (Some E2BIG, [])
      else
        (case utf8_encode wc of
           None \<Rightarrow> (Some EILSEQ, [])
         | Some bs \<Rightarrow>
             if olen < length bs then (Some E2BIG, [])
             else (let (e, out) = iconv rest (olen - length bs) in (e, bs @ out))))"

text \<open>
  A wide string is the list of wide characters at \<open>src\<close>; it ends before the first
  \<open>0\<close> (or where the list ends).
\<close>

definition wcslen :: "wchar list \<Rightarrow> nat" where
  "wcslen src = length (takeWhile (\<lambda>wc. wc \<noteq> 0) src)"

text \<open>
  The \<^verbatim>\<open>do ... while\<close> loop of \<open>wcs2nutf8\<close>: \<open>m\<close> is its value before \<^verbatim>\<open>--m\<close>, so the
  first call has \<open>m = wcslen src + 1\<close> and \<open>m\<close> is never 0. The second component is
  the buffer \<open>s\<close> from its start to the terminator the pass wrote (what lies behind the
  terminator is never read): \<^verbatim>\<open>s[0] = 0\<close> after an error, \<^verbatim>\<open>s[n - olen] = 0\<close> behind
  the octets written otherwise.
\<close>

function wcs2nutf8_loop :: "wchar list \<Rightarrow> nat \<Rightarrow> nat \<Rightarrow> iconv_errno option \<times> byte list" where
  "wcs2nutf8_loop src n m =
     (let (e, out) = iconv (take (m - 1) src) n;
          s = (case e of Some _ \<Rightarrow> [0] | None \<Rightarrow> out @ [0])
      in if e = Some E2BIG \<and> 0 < m - 1 then wcs2nutf8_loop src n (m - 1) else (e, s))"
  by pat_completeness auto
termination
  by (relation "measure (\<lambda>(src, n, m). m)") auto

declare wcs2nutf8_loop.simps [simp del]

text \<open>
  \<open>wcs2nutf8 dest src n pl\<close> returns the pointer \<open>rv\<close> (\<open>None\<close> for \<^verbatim>\<open>NULL\<close>, else the
  buffer \<open>s\<close> up to its terminator), the array \<open>dest\<close> as the call leaves it, and the
  rest of the plan. The diagnostics are not modelled.
\<close>

definition wcs2nutf8 ::
  "byte list \<Rightarrow> wchar list \<Rightarrow> nat \<Rightarrow> plan \<Rightarrow> (byte list option \<times> byte list) \<times> plan" where
  "wcs2nutf8 dest src n pl =
     (let (cd_ok, pl1) = acquire pl in
      if \<not> cd_ok then ((None, dest), pl1)
      else
        (let (s_ok, pl2) = acquire pl1 in
         if \<not> s_ok then ((None, dest), pl2)
         else
           (let (e, s) = wcs2nutf8_loop src n (wcslen src + 1)
            in ((Some s, strncpy dest s n), pl2))))"

subsection \<open>Identity records, sessions and drivers\<close>

text \<open>
  Modelled from the spec: \<^verbatim>\<open>struct hid_device_info\<close> is declared by the HID library,
  not in the sources at hand. The fields are those of the spec's raw interface
  descriptor (path, vendor id, product id, optional product and serial wide strings),
  the ones \<^verbatim>\<open>libambit.c\<close> reads. The \<^verbatim>\<open>next\<close> pointers make the enumeration a list of
  these.
\<close>

record hid_device_info =
  hid_path :: "string option"
  hid_vendor_id :: "16 word"
  hid_product_id :: "16 word"
  hid_serial_number :: "wchar list option"
  hid_product_string :: "wchar list option"

text \<open>
  Modelled from the spec: \<^verbatim>\<open>ambit_device_info_t\<close> is declared in \<^verbatim>\<open>libambit.h\<close>, not in
  the sources at hand. The fields are those of the spec's identity record, the ones
  \<^verbatim>\<open>libambit.c\<close> reads and writes. \<open>name\<close>, \<open>model\<close> and \<open>serial\<close> are character
  arrays of one octet more than their maximum length (the source writes index
  \<^verbatim>\<open>LIBAMBIT_MODEL_NAME_LENGTH\<close> of \<open>model\<close>). The \<^verbatim>\<open>next\<close> pointer is kept beside the
  record, in the heap of the enumeration.
\<close>

record ambit_device_info =
  name :: "byte list"
  model :: "byte list"
  serial :: "byte list"
  fw_version :: version
  hw_version :: version
  path :: "string option"
  vendor_id :: "16 word"
  product_id :: "16 word"
  is_supported :: bool
  access_status :: int

type_synonym hid_device = nat

text \<open>
  Modelled from the spec: \<^verbatim>\<open>ambit_object_t\<close> is declared in \<^verbatim>\<open>libambit_int.h\<close>, not in
  the sources at hand. The fields are those of the spec's session object (handle,
  identity record, driver, sequence counter, and the driver's private state), the ones
  \<^verbatim>\<open>libambit.c\<close> uses. \<open>ambit_object_state\<close> is the object without its driver
  pointer: the part of a session a driver function receives and may change.
\<close>

record ambit_object_state =
  handle :: "hid_device option"
  sequence_no :: "16 word"
  device_info :: ambit_device_info
  driver_data :: "ptr option"

text \<open>
  Modelled from the spec: \<^verbatim>\<open>ambit_device_driver_t\<close> is declared in
  \<^verbatim>\<open>device_driver.h\<close>, not in the sources at hand. The fields are the capabilities
  the spec lists, the ones \<^verbatim>\<open>libambit.c\<close> calls, each a function pointer that may be
  \<^verbatim>\<open>NULL\<close>. What a driver function does is not known here: it is a function of the
  session, its arguments and the world \<open>'w\<close> outside the session (the device, and the
  caller's memory its pointer arguments refer to), returning its \<^verbatim>\<open>int\<close> result, the
  session and the world.
\<close>

record 'w ambit_device_driver =
  init :: "(ambit_object_state \<Rightarrow> 32 word \<Rightarrow> 'w \<Rightarrow> ambit_object_state \<times> 'w) option"
  deinit :: "(ambit_object_state \<Rightarrow> 'w \<Rightarrow> ambit_object_state \<times> 'w) option"
  lock_log :: "(ambit_object_state \<Rightarrow> bool \<Rightarrow> 'w \<Rightarrow> int \<times> ambit_object_state \<times> 'w) option"
  date_time_set :: "(ambit_object_state \<Rightarrow> ptr \<Rightarrow> 'w \<Rightarrow> int \<times> ambit_object_state \<times> 'w) option"
  status_get :: "(ambit_object_state \<Rightarrow> ptr \<Rightarrow> 'w \<Rightarrow> int \<times> ambit_object_state \<times> 'w) option"
  personal_settings_get ::
    "(ambit_object_state \<Rightarrow> ptr \<Rightarrow> 'w \<Rightarrow> int \<times> ambit_object_state \<times> 'w) option"
  log_read ::
    "(ambit_object_state \<Rightarrow> ptr \<Rightarrow> ptr \<Rightarrow> ptr \<Rightarrow> ptr \<Rightarrow> 'w \<Rightarrow> int \<times> ambit_object_state \<times> 'w) option"
  gps_orbit_header_read ::
    "(ambit_object_state \<Rightarrow> ptr \<Rightarrow> 'w \<Rightarrow> int \<times> ambit_object_state \<times> 'w) option"
  gps_orbit_write ::
    "(ambit_object_state \<Rightarrow> ptr \<Rightarrow> nat \<Rightarrow> 'w \<Rightarrow> int \<times> ambit_object_state \<times> 'w) option"

record 'w ambit_object =
  state :: ambit_object_state
  driver :: "'w ambit_device_driver option"

text \<open>
  Modelled from the spec: \<^verbatim>\<open>ambit_known_device_t\<close> is declared in
  \<^verbatim>\<open>device_support.h\<close>, not in the sources at hand. The fields are what the spec's
  registry resolves (display name, support flag, driver) and the driver parameter, the
  ones \<^verbatim>\<open>libambit.c\<close> reads. The one command code the source sends is declared in
  \<^verbatim>\<open>protocol.h\<close>.
\<close>

record 'w ambit_known_device =
  known_name :: "byte list"
  known_supported :: bool
  known_driver :: "'w ambit_device_driver option"
  known_driver_param :: "32 word"

datatype ambit_command = ambit_command_device_info

text \<open>
  What the source takes from headers and libraries that are not in the sources at
  hand, as parameters: the three maximum lengths of \<^verbatim>\<open>libambit.h\<close>, the two registry
  look-ups of \<^verbatim>\<open>device_support.h\<close>, \<^verbatim>\<open>hid_open_path\<close>, the command exchange of
  \<^verbatim>\<open>protocol.h\<close> (\<open>Some\<close> of the reply when it returns 0) and \<^verbatim>\<open>open(path, O_RDWR)\<close>
  (\<open>Some\<close> of \<^verbatim>\<open>errno\<close> when it returns \<open>-1\<close>).
\<close>

record 'w env =
  LIBAMBIT_MODEL_NAME_LENGTH :: nat
  LIBAMBIT_SERIAL_LENGTH :: nat
  LIBAMBIT_PRODUCT_NAME_LENGTH :: nat
  libambit_device_support_known :: "16 word \<Rightarrow> 16 word \<Rightarrow> bool"
  libambit_device_support_find ::
    "16 word \<Rightarrow> 16 word \<Rightarrow> byte list \<Rightarrow> version \<Rightarrow> 'w ambit_known_device option"
  hid_open_path :: "string \<Rightarrow> hid_device option"
  libambit_protocol_command ::
    "hid_device \<Rightarrow> 16 word \<Rightarrow> ambit_command \<Rightarrow> byte list \<Rightarrow> byte list option"
  os_open :: "string \<Rightarrow> int option"

subsection \<open>device_info_get\<close>

definition komposti_version :: "byte list" where
  "komposti_version = [0x02, 0x00, 0x2d, 0x00]"

text \<open>
  \<open>utf8strncpy dst mem off n\<close> is \<^verbatim>\<open>utf8strncpy(dst, src, n)\<close> with \<open>src\<close> pointing
  \<open>off\<close> octets into the buffer \<open>mem\<close>. Its sanity loop and \<^verbatim>\<open>strncpy\<close> read the octets
  at \<open>src\<close> up to the first NUL, \<open>n\<close> at most; running off the end of \<open>mem\<close> before
  either is a fault. The warning of the loop needs an octet both below 0 and above 127,
  so it is never printed.
\<close>

definition utf8strncpy :: "byte list \<Rightarrow> byte list \<Rightarrow> nat \<Rightarrow> nat \<Rightarrow> fault + byte list" where
  "utf8strncpy dst mem off n =
     (let avail = take n (drop off mem)
      in if length avail < n \<and> 0 \<notin> set avail then Inl Out_of_bounds
         else Inr (strncpy dst avail n))"

text \<open>\<^verbatim>\<open>memcpy(version, mem + off, 4)\<close>.\<close>

definition memcpy4 :: "byte list \<Rightarrow> nat \<Rightarrow> fault + version" where
  "memcpy4 mem off =
     (if off + 4 \<le> length mem
      then Inr (mem ! off, mem ! (off + 1), mem ! (off + 2), mem ! (off + 3))
      else Inl Out_of_bounds)"

text \<open>
  \<open>object\<close> is the handle and the sequence number of the session, the two fields the
  caller initialises. The result is the return value and the record behind \<open>info\<close>.
\<close>

definition device_info_get ::
  "'w env \<Rightarrow> hid_device \<times> 16 word \<Rightarrow> ambit_device_info option
     \<Rightarrow> fault + (int \<times> ambit_device_info option)" where
  "device_info_get env object info =
     (case libambit_protocol_command env (fst object) (snd object)
             ambit_command_device_info komposti_version of
        Some reply_data \<Rightarrow>
          (case info of
             None \<Rightarrow> Inr (0, None)
           | Some i \<Rightarrow>
               (case utf8strncpy (model i) reply_data 0 (LIBAMBIT_MODEL_NAME_LENGTH env) of
                  Inl f \<Rightarrow> Inl f
                | Inr model1 \<Rightarrow>
                    (case utf8strncpy (serial i) reply_data (LIBAMBIT_MODEL_NAME_LENGTH env)
                            (LIBAMBIT_SERIAL_LENGTH env) of
                       Inl f \<Rightarrow> Inl f
                     | Inr serial1 \<Rightarrow>
                         (case memcpy4 reply_data
                                 (LIBAMBIT_MODEL_NAME_LENGTH env + LIBAMBIT_SERIAL_LENGTH env) of
                            Inl f \<Rightarrow> Inl f
                          | Inr fw \<Rightarrow>
                              (case memcpy4 reply_data
                                      (LIBAMBIT_MODEL_NAME_LENGTH env
                                       + LIBAMBIT_SERIAL_LENGTH env + 4) of
                                 Inl f \<Rightarrow> Inl f
                               | Inr hw \<Rightarrow>
                                   Inr (0, Some (i\<lparr>
                                     model := model1[LIBAMBIT_MODEL_NAME_LENGTH env := 0],
                                     serial := serial1[LIBAMBIT_SERIAL_LENGTH env := 0],
                                     fw_version := fw,
                                     hw_version := hw\<rparr>)))))))
      | None \<Rightarrow> Inr (- 1, info))"

subsection \<open>ambit_device_info_new and libambit_enumerate\<close>

text \<open>\<^verbatim>\<open>calloc(1, sizeof(*device))\<close>: every field zero.\<close>

definition calloc_device_info :: "'w env \<Rightarrow> ambit_device_info" where
  "calloc_device_info env =
     \<lparr>name = replicate (LIBAMBIT_PRODUCT_NAME_LENGTH env + 1) 0,
      model = replicate (LIBAMBIT_MODEL_NAME_LENGTH env + 1) 0,
      serial = replicate (LIBAMBIT_SERIAL_LENGTH env + 1) 0,
      fw_version = (0, 0, 0, 0), hw_version = (0, 0, 0, 0),
      path = None, vendor_id = 0, product_id = 0,
      is_supported = False, access_status = 0\<rparr>"

text \<open>
  \<^verbatim>\<open>strcpy(dst, src)\<close>: the string at \<open>src\<close> and its terminator, written from the start
  of \<open>dst\<close>; a fault when the array is too short.
\<close>

definition strcpy :: "byte list \<Rightarrow> byte list \<Rightarrow> fault + byte list" where
  "strcpy dst src =
     (if length (cstr src) + 1 \<le> length dst
      then Inr (cstr src @ [0] @ drop (length (cstr src) + 1) dst)
      else Inl Out_of_bounds)"

text \<open>
  The result is the pointer returned (\<open>None\<close> for \<^verbatim>\<open>NULL\<close>) and the rest of the plan.
  The strings \<open>name\<close> and \<open>uniq\<close> that \<open>wcs2nutf8\<close> returns only feed the diagnostics,
  which are not modelled, and are freed at the end.
\<close>

definition ambit_device_info_new ::
  "'w env \<Rightarrow> hid_device_info option \<Rightarrow> plan \<Rightarrow> fault + (ambit_device_info option \<times> plan)" where
  "ambit_device_info_new env dev pl =
     (case dev of
        None \<Rightarrow> Inr (None, pl)
      | Some d \<Rightarrow>
     (case hid_path d of
        None \<Rightarrow> Inr (None, pl)
      | Some dev_path \<Rightarrow>
          if \<not> libambit_device_support_known env (hid_vendor_id d) (hid_product_id d)
          then Inr (None, pl)
          else
            (let (path_ok, pl1) = acquire pl in
             if \<not> path_ok then Inr (None, pl1)
             else
               (let (device_ok, pl2) = acquire pl1 in
                if \<not> device_ok then Inr (None, pl2)
                else
                  (let device0 = (calloc_device_info env)\<lparr>
                         path := Some dev_path,
                         vendor_id := hid_vendor_id d,
                         product_id := hid_product_id d\<rparr>;
                       ((name_rv, name1), pl3) =
                         (case hid_product_string d of
                            None \<Rightarrow> ((None, name device0), pl2)
                          | Some ws \<Rightarrow>
                              wcs2nutf8 (name device0) ws (LIBAMBIT_PRODUCT_NAME_LENGTH env) pl2);
                       ((uniq_rv, serial1), pl4) =
                         (case hid_serial_number d of
                            None \<Rightarrow> ((None, serial device0), pl3)
                          | Some ws \<Rightarrow>
                              wcs2nutf8 (serial device0) ws (LIBAMBIT_SERIAL_LENGTH env) pl3);
                       device1 = device0\<lparr>name := name1, serial := serial1\<rparr>
                   in
                     (case hid_open_path env dev_path of
                        Some hid \<Rightarrow>
                          (case device_info_get env (hid, 0) (Some device1) of
                             Inl f \<Rightarrow> Inl f
                           | Inr (ret, None) \<Rightarrow> Inl Null_dereference
                           | Inr (ret, Some device2) \<Rightarrow>
                               if ret = 0 then
                                 (case libambit_device_support_find env (vendor_id device2)
                                         (product_id device2) (cstr (model device2))
                                         (fw_version device2) of
                                    Some known_device \<Rightarrow>
                                      (let device3 =
                                             device2\<lparr>is_supported := known_supported known_device\<rparr>
                                       in if cstr (name device3) \<noteq> cstr (known_name known_device)
                                          then
                                            (case strcpy (name device3) (known_name known_device) of
                                               Inl f \<Rightarrow> Inl f
                                             | Inr name3 \<Rightarrow>
                                                 Inr (Some (device3\<lparr>name := name3\<rparr>), pl4))
                                          else Inr (Some device3, pl4))
                                  | None \<Rightarrow> Inr (Some device2, pl4))
                               else Inr (Some device2, pl4))
                      | None \<Rightarrow>
                          (case os_open env dev_path of
                             Some errno \<Rightarrow> Inr (Some (device1\<lparr>access_status := errno\<rparr>), pl4)
                           | None \<Rightarrow> Inr (Some device1, pl4))))))))"

text \<open>
  The list under construction lives in a heap of nodes, the record and its \<^verbatim>\<open>next\<close>
  pointer; a pointer to a node is its index. \<open>devices\<close> is the head pointer of the
  source. A new node has \<^verbatim>\<open>next = NULL\<close> from \<^verbatim>\<open>calloc\<close>.
\<close>

type_synonym heap = "(ambit_device_info \<times> ptr option) list"

fun enumerate_loop ::
  "'w env \<Rightarrow> hid_device_info list \<Rightarrow> heap \<Rightarrow> ptr option \<Rightarrow> plan
     \<Rightarrow> fault + (heap \<times> ptr option \<times> plan)" where
  "enumerate_loop env [] heap devices pl = Inr (heap, devices, pl)"
| "enumerate_loop env (current # rest) heap devices pl =
     (case ambit_device_info_new env (Some current) pl of
        Inl f \<Rightarrow> Inl f
      | Inr (None, pl') \<Rightarrow> enumerate_loop env rest heap devices pl'
      | Inr (Some r, pl') \<Rightarrow>
          (let tmp = length heap; heap1 = heap @ [(r, None)]
           in (case devices of
                 Some d \<Rightarrow> enumerate_loop env rest (heap1[tmp := (r, Some d)]) devices pl'
               | None \<Rightarrow> enumerate_loop env rest heap1 (Some tmp) pl')))"

text \<open>The records a caller reaches from a pointer by following \<^verbatim>\<open>next\<close>, \<open>fuel\<close> at most.\<close>

fun list_from :: "heap \<Rightarrow> nat \<Rightarrow> ptr option \<Rightarrow> ambit_device_info list" where
  "list_from heap 0 p = []"
| "list_from heap (Suc fuel) None = []"
| "list_from heap (Suc fuel) (Some a) =
     (if a < length heap then fst (heap ! a) # list_from heap fuel (snd (heap ! a)) else [])"

text \<open>
  \<open>devs\<close> is what \<^verbatim>\<open>hid_enumerate(0, 0)\<close> returned. The result is the list the caller
  reaches from the pointer returned, and the rest of the plan.
\<close>

definition libambit_enumerate ::
  "'w env \<Rightarrow> hid_device_info list \<Rightarrow> plan \<Rightarrow> fault + (ambit_device_info list \<times> plan)" where
  "libambit_enumerate env devs pl =
     (if devs = [] then Inr ([], pl)
      else
        (case enumerate_loop env devs [] None pl of
           Inl f \<Rightarrow> Inl f
         | Inr (heap, devices, pl') \<Rightarrow> Inr (list_from heap (length heap) devices, pl')))"

subsection \<open>Effects of the session functions\<close>

text \<open>
  The session functions return, beside their result, the calls they made that reach
  outside the session, oldest first: diagnostics, allocations and releases, the
  registry look-up, the HID library, and the driver.
\<close>

datatype log_level = LOG_ERROR | LOG_WARNING | LOG_INFO

datatype capability =
    Cap_init
  | Cap_deinit
  | Cap_lock_log bool
  | Cap_date_time_set
  | Cap_status_get
  | Cap_personal_settings_get
  | Cap_log_read
  | Cap_gps_orbit_header_read
  | Cap_gps_orbit_write

datatype event =
    Log log_level string
  | Strdup string
  | Calloc_object
  | Free_path "string option"
  | Free_object
  | Support_find
  | Hid_open_path string
  | Hid_set_nonblocking hid_device
  | Hid_close hid_device
  | Driver_call capability

text \<open>An allocation; a call that talks to the device (the HID library or the driver).\<close>

fun is_alloc :: "event \<Rightarrow> bool" where
  "is_alloc (Strdup p) = True"
| "is_alloc Calloc_object = True"
| "is_alloc e = False"

fun is_io :: "event \<Rightarrow> bool" where
  "is_io (Hid_open_path p) = True"
| "is_io (Hid_set_nonblocking h) = True"
| "is_io (Hid_close h) = True"
| "is_io (Driver_call c) = True"
| "is_io e = False"

subsection \<open>libambit_new\<close>

text \<open>
  \<^verbatim>\<open>strerror(EINVAL)\<close> is the text of the first diagnostic. Calling through a null
  driver pointer or a null \<open>init\<close> is a fault.
\<close>

definition libambit_new ::
  "'w env \<Rightarrow> ambit_device_info option \<Rightarrow> plan \<Rightarrow> 'w
     \<Rightarrow> fault + ('w ambit_object option \<times> event list \<times> plan \<times> 'w)" where
  "libambit_new env device pl w =
     (case device of
        None \<Rightarrow> Inr (None, [Log LOG_ERROR ''Invalid argument''], pl, w)
      | Some dev \<Rightarrow>
     (case path dev of
        None \<Rightarrow> Inr (None, [Log LOG_ERROR ''Invalid argument''], pl, w)
      | Some p \<Rightarrow>
          (let (path_ok, pl1) = acquire pl in
           if \<not> path_ok then Inr (None, [], pl1, w)
           else if 0 = access_status dev \<and> is_supported dev then
             (case libambit_device_support_find env (vendor_id dev) (product_id dev)
                     (cstr (model dev)) (fw_version dev) of
                None \<Rightarrow> Inr (None, [Strdup p, Support_find, Free_path (Some p)], pl1, w)
              | Some known_device \<Rightarrow>
                  (let (object_ok, pl2) = acquire pl1 in
                   if \<not> object_ok
                   then Inr (None, [Strdup p, Support_find, Free_path (Some p)], pl2, w)
                   else
                     (let h = hid_open_path env p;
                          st = \<lparr>handle = h, sequence_no = 0,
                                device_info = dev\<lparr>path := Some p\<rparr>, driver_data = None\<rparr>;
                          evs = [Strdup p, Support_find, Calloc_object, Hid_open_path p]
                                @ (case h of Some hnd \<Rightarrow> [Hid_set_nonblocking hnd] | None \<Rightarrow> [])
                      in
                        (case known_driver known_device of
                           None \<Rightarrow> Inl Null_dereference
                         | Some drv \<Rightarrow>
                             (case init drv of
                                None \<Rightarrow> Inl Null_dereference
                              | Some f \<Rightarrow>
                                  (let (st', w') = f st (known_driver_param known_device) w
                                   in Inr (Some \<lparr>state = st', driver = Some drv\<rparr>,
                                           evs @ [Driver_call Cap_init], pl2, w')))))))
           else Inr (None, [Strdup p, Free_path (Some p)], pl1, w))))"

subsection \<open>libambit_close\<close>

text \<open>
  The diagnostic is printed before the null check. A driver function gets the session
  as the one before it left it; the handle and the path are read after the driver
  functions have run. \<^verbatim>\<open>free\<close> of a null path does nothing.
\<close>

definition libambit_close :: "'w ambit_object option \<Rightarrow> 'w \<Rightarrow> event list \<times> 'w" where
  "libambit_close object w =
     (case object of
        None \<Rightarrow> ([Log LOG_INFO ''Closing''], w)
      | Some obj \<Rightarrow>
          (let (st2, evs2, w2) =
                 (case driver obj of
                    None \<Rightarrow> (state obj, [], w)
                  | Some drv \<Rightarrow>
                      (let (st1, evs1, w1) =
                             (case lock_log drv of
                                None \<Rightarrow> (state obj, [], w)
                              | Some f \<Rightarrow>
                                  (let (ret, st', w') = f (state obj) False w
                                   in (st', [Driver_call (Cap_lock_log False)], w')))
                       in (case deinit drv of
                             None \<Rightarrow> (st1, evs1, w1)
                           | Some g \<Rightarrow>
                               (let (st', w') = g st1 w1
                                in (st', evs1 @ [Driver_call Cap_deinit], w')))));
               evs3 = (case handle st2 of None \<Rightarrow> [] | Some h \<Rightarrow> [Hid_close h])
           in (Log LOG_INFO ''Closing'' # evs2 @ evs3
                 @ [Free_path (path (device_info st2)), Free_object], w2)))"

subsection \<open>Capability dispatch\<close>

text \<open>
  Each function reads \<^verbatim>\<open>object->driver\<close> first, with no null check on \<open>object\<close>. The
  result is the return value, the session, the calls made and the world.
\<close>

definition libambit_date_time_set ::
  "'w ambit_object option \<Rightarrow> ptr \<Rightarrow> 'w \<Rightarrow> fault + (int \<times> 'w ambit_object \<times> event list \<times> 'w)" where
  "libambit_date_time_set object tm w =
     (case object of
        None \<Rightarrow> Inl Null_dereference
      | Some obj \<Rightarrow>
          (case (case driver obj of None \<Rightarrow> None | Some drv \<Rightarrow> date_time_set drv) of
             Some f \<Rightarrow>
               (let (ret, st', w') = f (state obj) tm w
                in Inr (ret, obj\<lparr>state := st'\<rparr>, [Driver_call Cap_date_time_set], w'))
           | None \<Rightarrow>
               Inr (- 1, obj, [Log LOG_WARNING ''Driver does not support date_time_set''], w)))"

definition libambit_device_status_get ::
  "'w ambit_object option \<Rightarrow> ptr \<Rightarrow> 'w \<Rightarrow> fault + (int \<times> 'w ambit_object \<times> event list \<times> 'w)" where
  "libambit_device_status_get object status w =
     (case object of
        None \<Rightarrow> Inl Null_dereference
      | Some obj \<Rightarrow>
          (case (case driver obj of None \<Rightarrow> None | Some drv \<Rightarrow> status_get drv) of
             Some f \<Rightarrow>
               (let (ret, st', w') = f (state obj) status w
                in Inr (ret, obj\<lparr>state := st'\<rparr>, [Driver_call Cap_status_get], w'))
           | None \<Rightarrow>
               Inr (- 1, obj, [Log LOG_WARNING ''Driver does not support status_get''], w)))"

definition libambit_personal_settings_get ::
  "'w ambit_object option \<Rightarrow> ptr \<Rightarrow> 'w \<Rightarrow> fault + (int \<times> 'w ambit_object \<times> event list \<times> 'w)" where
  "libambit_personal_settings_get object settings w =
     (case object of
        None \<Rightarrow> Inl Null_dereference
      | Some obj \<Rightarrow>
          (case (case driver obj of None \<Rightarrow> None | Some drv \<Rightarrow> personal_settings_get drv) of
             Some f \<Rightarrow>
               (let (ret, st', w') = f (state obj) settings w
                in Inr (ret, obj\<lparr>state := st'\<rparr>, [Driver_call Cap_personal_settings_get], w'))
           | None \<Rightarrow>
               Inr (- 1, obj,
                    [Log LOG_WARNING ''Driver does not support personal_settings_get''], w)))"

definition libambit_gps_orbit_header_read ::
  "'w ambit_object option \<Rightarrow> ptr \<Rightarrow> 'w \<Rightarrow> fault + (int \<times> 'w ambit_object \<times> event list \<times> 'w)" where
  "libambit_gps_orbit_header_read object data w =
     (case object of
        None \<Rightarrow> Inl Null_dereference
      | Some obj \<Rightarrow>
          (case (case driver obj of None \<Rightarrow> None | Some drv \<Rightarrow> gps_orbit_header_read drv) of
             Some f \<Rightarrow>
               (let (ret, st', w') = f (state obj) data w
                in Inr (ret, obj\<lparr>state := st'\<rparr>, [Driver_call Cap_gps_orbit_header_read], w'))
           | None \<Rightarrow>
               Inr (- 1, obj,
                    [Log LOG_WARNING ''Driver does not support gps_orbit_header_read''], w)))"

definition libambit_gps_orbit_write ::
  "'w ambit_object option \<Rightarrow> ptr \<Rightarrow> nat \<Rightarrow> 'w
     \<Rightarrow> fault + (int \<times> 'w ambit_object \<times> event list \<times> 'w)" where
  "libambit_gps_orbit_write object data datalen w =
     (case object of
        None \<Rightarrow> Inl Null_dereference
      | Some obj \<Rightarrow>
          (case (case driver obj of None \<Rightarrow> None | Some drv \<Rightarrow> gps_orbit_write drv) of
             Some f \<Rightarrow>
               (let (ret, st', w') = f (state obj) data datalen w
                in Inr (ret, obj\<lparr>state := st'\<rparr>, [Driver_call Cap_gps_orbit_write], w'))
           | None \<Rightarrow>
               Inr (- 1, obj, [Log LOG_WARNING ''Driver does not support gps_orbit_write''], w)))"

definition libambit_log_read ::
  "'w ambit_object option \<Rightarrow> ptr \<Rightarrow> ptr \<Rightarrow> ptr \<Rightarrow> ptr \<Rightarrow> 'w
     \<Rightarrow> fault + (int \<times> 'w ambit_object \<times> event list \<times> 'w)" where
  "libambit_log_read object skip_cb push_cb progress_cb userref w =
     (case object of
        None \<Rightarrow> Inl Null_dereference
      | Some obj \<Rightarrow>
          (case (case driver obj of None \<Rightarrow> None | Some drv \<Rightarrow> log_read drv) of
             Some f \<Rightarrow>
               (let (ret, st', w') = f (state obj) skip_cb push_cb progress_cb userref w
                in Inr (ret, obj\<lparr>state := st'\<rparr>, [Driver_call Cap_log_read], w'))
           | None \<Rightarrow>
               Inr (- 1, obj, [Log LOG_WARNING ''Driver does not support log_read''], w)))"

subsection \<open>libambit_log_entry_free\<close>

text \<open>
  Modelled from the spec: \<^verbatim>\<open>ambit_log_sample_t\<close> and \<^verbatim>\<open>ambit_log_entry_t\<close> are
  declared in \<^verbatim>\<open>libambit.h\<close>, not in the sources at hand. A sample is a tag and a
  union, the spec's tagged union over three variants; of the union the source reads
  only the pointer the tag selects: \<^verbatim>\<open>u.periodic.values\<close>,
  \<^verbatim>\<open>u.gps_base.satellites\<close> or \<^verbatim>\<open>u.unknown.data\<close>. \<open>Sample_other\<close> stands for every
  other tag of the enumeration.
\<close>

datatype ambit_log_sample =
    Sample_periodic "ptr option"
  | Sample_gps_base "ptr option"
  | Sample_unknown "ptr option"
  | Sample_other nat

text \<open>
  Of \<^verbatim>\<open>ambit_log_entry_t\<close> only the sample array matters here: \<open>samples\<close> is the
  pointer (\<open>None\<close> for \<^verbatim>\<open>NULL\<close>) with the elements it points to.
\<close>

record ambit_log_entry =
  samples_count :: nat
  samples :: "(ptr \<times> ambit_log_sample list) option"

text \<open>The \<^verbatim>\<open>free\<close> calls of one pass of the loop, in order.\<close>

fun sample_free :: "ambit_log_sample \<Rightarrow> ptr list" where
  "sample_free (Sample_periodic values) = (case values of None \<Rightarrow> [] | Some p \<Rightarrow> [p])"
| "sample_free (Sample_gps_base satellites) = (case satellites of None \<Rightarrow> [] | Some p \<Rightarrow> [p])"
| "sample_free (Sample_unknown data) = (case data of None \<Rightarrow> [] | Some p \<Rightarrow> [p])"
| "sample_free (Sample_other tag) = []"

text \<open>
  The \<^verbatim>\<open>for\<close> loop from index \<open>i\<close> on; reading a sample past the end of the array is
  a fault.
\<close>

function samples_free_loop :: "ambit_log_sample list \<Rightarrow> nat \<Rightarrow> nat \<Rightarrow> fault + ptr list" where
  "samples_free_loop arr count i =
     (if i < count then
        (if i < length arr then
           (case samples_free_loop arr count (Suc i) of
              Inl f \<Rightarrow> Inl f
            | Inr freed \<Rightarrow> Inr (sample_free (arr ! i) @ freed))
         else Inl Out_of_bounds)
      else Inr [])"
  by pat_completeness auto
termination
  by (relation "measure (\<lambda>(arr, count, i). count - i)") auto

declare samples_free_loop.simps [simp del]

text \<open>
  \<open>log_entry\<close> is the pointer with the entry it points to. The result is the pointers
  passed to \<^verbatim>\<open>free\<close>, in order.
\<close>

definition libambit_log_entry_free :: "(ptr \<times> ambit_log_entry) option \<Rightarrow> fault + ptr list" where
  "libambit_log_entry_free log_entry =
     (case log_entry of
        None \<Rightarrow> Inr []
      | Some (entry_ptr, entry) \<Rightarrow>
          (case samples entry of
             None \<Rightarrow> Inr [entry_ptr]
           | Some (samples_ptr, arr) \<Rightarrow>
               (case samples_free_loop arr (samples_count entry) 0 of
                  Inl f \<Rightarrow> Inl f
                | Inr freed \<Rightarrow> Inr (freed @ [samples_ptr, entry_ptr]))))"

subsection \<open>The UTF-8 text of a wide string\<close>

text \<open>
  What the specification calls the conversion of a wide string: the sequences of its
  characters one after the other, or \<open>None\<close> when one of them is invalid.
\<close>

fun utf8_text :: "wchar list \<Rightarrow> byte list option" where
  "utf8_text [] = Some []"
| "utf8_text (wc # ws) =
     (case utf8_encode wc of
        None \<Rightarrow> None
      | Some bs \<Rightarrow> (case utf8_text ws of None \<Rightarrow> None | Some t \<Rightarrow> Some (bs @ t)))"

subsection \<open>The teardown order, step by step\<close>

text \<open>
  The order of \<open>close\<close> as the specification words it, to be compared with
  \<open>libambit_close\<close>: five steps, each applied to the session, the calls made so far and
  the world. A step that does not apply leaves all three as they are; the next step
  runs either way.
\<close>

type_synonym 'w teardown = "ambit_object_state \<times> event list \<times> 'w"

definition release_lock_step :: "'w ambit_device_driver option \<Rightarrow> 'w teardown \<Rightarrow> 'w teardown" where
  "release_lock_step d t =
     (case d of
        None \<Rightarrow> t
      | Some drv \<Rightarrow>
          (case lock_log drv of
             None \<Rightarrow> t
           | Some f \<Rightarrow>
               (case t of (st, evs, w) \<Rightarrow>
                  (case f st False w of (ret, st', w') \<Rightarrow>
                     (st', evs @ [Driver_call (Cap_lock_log False)], w')))))"

definition deinit_step :: "'w ambit_device_driver option \<Rightarrow> 'w teardown \<Rightarrow> 'w teardown" where
  "deinit_step d t =
     (case d of
        None \<Rightarrow> t
      | Some drv \<Rightarrow>
          (case deinit drv of
             None \<Rightarrow> t
           | Some g \<Rightarrow>
               (case t of (st, evs, w) \<Rightarrow>
                  (case g st w of (st', w') \<Rightarrow> (st', evs @ [Driver_call Cap_deinit], w')))))"

definition close_handle_step :: "'w teardown \<Rightarrow> 'w teardown" where
  "close_handle_step t =
     (case t of (st, evs, w) \<Rightarrow>
        (st, evs @ (case handle st of None \<Rightarrow> [] | Some h \<Rightarrow> [Hid_close h]), w))"

definition free_path_step :: "'w teardown \<Rightarrow> 'w teardown" where
  "free_path_step t = (case t of (st, evs, w) \<Rightarrow> (st, evs @ [Free_path (path (device_info st))], w))"

definition free_session_step :: "'w teardown \<Rightarrow> 'w teardown" where
  "free_session_step t = (case t of (st, evs, w) \<Rightarrow> (st, evs @ [Free_object], w))"

definition close_spec :: "'w ambit_object \<Rightarrow> 'w \<Rightarrow> 'w teardown" where
  "close_spec obj w =
     free_session_step (free_path_step (close_handle_step
       (deinit_step (driver obj) (release_lock_step (driver obj) (state obj, [], w)))))"

text \<open>
  The place of a call in the teardown order; a call that is no teardown step ranks 0,
  with the diagnostic that opens the function.
\<close>

fun step_rank :: "event \<Rightarrow> nat" where
  "step_rank (Driver_call (Cap_lock_log lock)) = 1"
| "step_rank (Driver_call Cap_deinit) = 2"
| "step_rank (Hid_close h) = 3"
| "step_rank (Free_path p) = 4"
| "step_rank Free_object = 5"
| "step_rank e = 0"

subsection \<open>What a log entry owns\<close>

text \<open>
  The allocations a log entry owns, as the specification lists them: for each sample
  the payload of its variant when that pointer is not null, then the sample array,
  then the entry.
\<close>

fun payload :: "ambit_log_sample \<Rightarrow> ptr option" where
  "payload (Sample_periodic values) = values"
| "payload (Sample_gps_base satellites) = satellites"
| "payload (Sample_unknown data) = data"
| "payload (Sample_other tag) = None"

definition owned_allocations :: "ptr \<times> ambit_log_entry \<Rightarrow> ptr list" where
  "owned_allocations log_entry =
     (case samples (snd log_entry) of
        None \<Rightarrow> []
      | Some (samples_ptr, arr) \<Rightarrow> List.map_filter payload arr @ [samples_ptr])
     @ [fst log_entry]"

subsection \<open>The shape of the enumeration heap\<close>

text \<open>
  What the loop of \<open>libambit_enumerate\<close> keeps true of its heap and its head pointer:
  either there is no node yet, or the head points to a node whose \<^verbatim>\<open>next\<close> is null.
\<close>

definition single_headed :: "heap \<Rightarrow> ptr option \<Rightarrow> bool" where
  "single_headed heap devices \<longleftrightarrow>
     (devices = None \<and> heap = [])
     \<or> (\<exists>a. devices = Some a \<and> a < length heap \<and> snd (heap ! a) = None)"

subsection \<open>Concrete inputs\<close>

text \<open>The sessions, drivers and devices the theorems below are instantiated at.\<close>

definition fixture_info :: ambit_device_info where
  "fixture_info =
     \<lparr>name = [0x41, 0x6d, 0, 0, 0, 0, 0], model = [0x50, 0x65, 0x61, 0x6b, 0],
      serial = [0x37, 0, 0, 0, 0],
      fw_version = (1, 2, 3, 4), hw_version = (4, 3, 2, 1),
      path = Some ''/dev/hidraw0'', vendor_id = 0x1493, product_id = 0x10,
      is_supported = True, access_status = 0\<rparr>"

text \<open>
  A driver over a world that counts the exchanges with the device; \<open>date_time_set\<close>
  answers with the pointer it got, \<open>log_read\<close> bumps the sequence number.
\<close>

definition fixture_driver :: "nat ambit_device_driver" where
  "fixture_driver =
     \<lparr>init = Some (\<lambda>st param w. (st\<lparr>driver_data := Some 7\<rparr>, w)),
      deinit = Some (\<lambda>st w. (st\<lparr>driver_data := None\<rparr>, w)),
      lock_log = Some (\<lambda>st lock w. (0, st, Suc w)),
      date_time_set = Some (\<lambda>st tm w. (int tm, st, Suc w)),
      status_get = Some (\<lambda>st status w. (0, st, Suc w)),
      personal_settings_get = Some (\<lambda>st settings w. (0, st, Suc w)),
      log_read = Some (\<lambda>st skip_cb push_cb progress_cb userref w.
                   (3, st\<lparr>sequence_no := sequence_no st + 1\<rparr>, Suc w)),
      gps_orbit_header_read = Some (\<lambda>st data w. (0, st, Suc w)),
      gps_orbit_write = Some (\<lambda>st data datalen w. (int datalen, st, Suc w))\<rparr>"

definition fixture_bare_driver :: "nat ambit_device_driver" where
  "fixture_bare_driver =
     \<lparr>init = None, deinit = None, lock_log = None, date_time_set = None, status_get = None,
      personal_settings_get = None, log_read = None, gps_orbit_header_read = None,
      gps_orbit_write = None\<rparr>"

definition fixture_state :: ambit_object_state where
  "fixture_state =
     \<lparr>handle = Some 5, sequence_no = 0, device_info = fixture_info, driver_data = Some 7\<rparr>"

definition fixture_object :: "nat ambit_device_driver option \<Rightarrow> nat ambit_object" where
  "fixture_object drv = \<lparr>state = fixture_state, driver = drv\<rparr>"

definition fixture_known :: "nat ambit_known_device" where
  "fixture_known =
     \<lparr>known_name = [0x41, 0x6d, 0x62, 0x69, 0x74], known_supported = True,
      known_driver = Some fixture_driver, known_driver_param = 2\<rparr>"

text \<open>
  A host with one vendor in the registry and one model \<open>Peak\<close> of it supported; only
  \<^verbatim>\<open>/dev/hidraw0\<close> opens, and its device answers the probe with model \<open>Peak\<close>, serial
  \<open>7\<close>, firmware 1.2.1027 and hardware 4.3.258.
\<close>

definition fixture_env :: "nat env" where
  "fixture_env =
     \<lparr>LIBAMBIT_MODEL_NAME_LENGTH = 4, LIBAMBIT_SERIAL_LENGTH = 4,
      LIBAMBIT_PRODUCT_NAME_LENGTH = 6,
      libambit_device_support_known = (\<lambda>vid pid. vid = 0x1493),
      libambit_device_support_find =
        (\<lambda>vid pid model fw.
           if vid = 0x1493 \<and> model = [0x50, 0x65, 0x61, 0x6b] then Some fixture_known else None),
      hid_open_path = (\<lambda>p. if p = ''/dev/hidraw0'' then Some 5 else None),
      libambit_protocol_command =
        (\<lambda>h seq_no cmd data.
           if h = 5
           then Some [0x50, 0x65, 0x61, 0x6b, 0x37, 0, 0, 0, 1, 2, 3, 4, 4, 3, 2, 1]
           else None),
      os_open = (\<lambda>p. Some 13)\<rparr>"

definition fixture_entry :: ambit_log_entry where
  "fixture_entry =
     \<lparr>samples_count = 5,
      samples = Some (20, [Sample_periodic (Some 10), Sample_gps_base (Some 11),
                           Sample_unknown (Some 12), Sample_other 3, Sample_periodic None])\<rparr>"

definition fixture_dev_a :: hid_device_info where
  "fixture_dev_a =
     \<lparr>hid_path = Some ''/dev/hidraw0'', hid_vendor_id = 0x1493, hid_product_id = 0x10,
      hid_serial_number = None, hid_product_string = Some [0x41, 0x6d]\<rparr>"

definition fixture_dev_b :: hid_device_info where
  "fixture_dev_b =
     \<lparr>hid_path = Some ''/dev/hidraw1'', hid_vendor_id = 0x1493, hid_product_id = 0x1a,
      hid_serial_number = Some [0x39], hid_product_string = Some [0x41, 0x6d]\<rparr>"

definition fixture_dev_c :: hid_device_info where
  "fixture_dev_c =
     \<lparr>hid_path = Some ''/dev/hidraw2'', hid_vendor_id = 0x046d, hid_product_id = 0x1a,
      hid_serial_number = None, hid_product_string = None\<rparr>"

section \<open>Properties\<close>

subsection \<open>Decimal rendering and the version string\<close>

lemma dec_length: "n < 10 ^ Suc k \<Longrightarrow> length (dec n) \<le> Suc k"
proof (induction k arbitrary: n)
  case 0
  then show ?case by (simp add: dec.simps [of n])
next
  case (Suc k)
  show ?case
  proof (cases "n < 10")
    case True
    then show ?thesis by (simp add: dec.simps [of n])
  next
    case False
    from Suc.prems have "n div 10 < 10 ^ Suc k" by simp
    then have "length (dec (n div 10)) \<le> Suc k" by (rule Suc.IH)
    with False show ?thesis by (simp add: dec.simps [of n])
  qed
qed

lemma dec_length_byte: "length (dec (unat (b :: byte))) \<le> 3"
proof -
  have "unat b < 2 ^ 8" using unsigned_less [of b] by simp
  then have "unat b < 10 ^ Suc 2" by simp
  then show ?thesis using dec_length [of "unat b" 2] by simp
qed

lemma or_shift8:
  "uint (c :: byte) OR push_bit 8 (uint (d :: byte)) = uint c + 256 * uint d"
proof -
  have "\<not> bit (uint c) n \<or> \<not> bit (push_bit 8 (uint d)) n" for n
    by (auto simp add: bit_uint_iff bit_push_bit_iff)
  then have "uint c + push_bit 8 (uint d) = uint c OR push_bit 8 (uint d)"
    by (rule disjunctive_add)
  then show ?thesis by (simp add: push_bit_eq_mult)
qed

lemma patch_value:
  "nat (push_bit 0 (uint (c :: byte)) OR push_bit 8 (uint (d :: byte))) = unat c + 256 * unat d"
  by (simp add: or_shift8 nat_add_distrib nat_mult_distrib)

lemma patch_nonneg: "0 \<le> push_bit 0 (uint (c :: byte)) OR push_bit 8 (uint (d :: byte))"
  by (simp add: or_shift8)

lemma dec_length_patch: "length (dec (unat (c :: byte) + 256 * unat (d :: byte))) \<le> 5"
proof -
  have "unat c < 256" "unat d < 256"
    using unsigned_less [of c] unsigned_less [of d] by simp_all
  then have "unat c + 256 * unat d < 10 ^ Suc 4" by simp
  then show ?thesis using dec_length [of "unat c + 256 * unat d" 4] by simp
qed

lemma dec_255: "dec 255 = ''255''"
  by (simp add: dec.simps [of 255] dec.simps [of 25] dec.simps [of 2] digit_char_def)

lemma dec_65535: "dec 65535 = ''65535''"
  by (simp add: dec.simps [of 65535] dec.simps [of 6553] dec.simps [of 655] dec.simps [of 65]
      dec.simps [of 6] digit_char_def)

text \<open>
  C8. \<open>version_string\<close> renders a 4-byte version as major, minor and patch separated
  by dots, in decimal: major is byte 0, minor is byte 1, patch is byte 2 plus 256 times
  byte 3 (the little-endian 16-bit value). The 13 characters the buffer leaves room for
  never cut the text. Bytes 1, 2, 3, 4 render as 1.2.1027, and the longest text is
  255.255.65535, as the comment in the source says.
\<close>

theorem version_string_renders:
  "version_string (Some old) (Some (major, minor, p_lo, p_hi)) =
     Some (dec (unat major) @ ''.'' @ dec (unat minor) @ ''.'' @
           dec (unat p_lo + 256 * unat p_hi))
   \<and> version_string (Some old) (Some (1, 2, 3, 4)) = Some ''1.2.1027''
   \<and> version_string (Some old) (Some (255, 255, 255, 255)) = Some ''255.255.65535''"
proof -
  have general: "version_string (Some old') (Some (a, b, c, d)) =
     Some (dec (unat a) @ ''.'' @ dec (unat b) @ ''.'' @ dec (unat c + 256 * unat d))"
    for old' and a b c d :: byte
  proof -
    let ?t = "dec (unat a) @ ''.'' @ dec (unat b) @ ''.'' @ dec (unat c + 256 * unat d)"
    have "length ?t \<le> 13"
      using dec_length_byte [of a] dec_length_byte [of b] dec_length_patch [of c d]
      by simp
    then have "take 13 ?t = ?t" by simp
    moreover have "printf_d (push_bit 0 (uint c) OR push_bit 8 (uint d)) =
        dec (unat c + 256 * unat d)"
      using patch_nonneg [of c d] patch_value [of c d] by (simp add: printf_d_def)
    moreover have "printf_d (uint a) = dec (unat a)" "printf_d (uint b) = dec (unat b)"
      by (simp_all add: printf_d_def)
    ultimately show ?thesis
      by (simp add: version_string_def snprintf_def LIBAMBIT_VERSION_LENGTH_def)
  qed
  have "dec (unat (1 :: byte)) = ''1''" "dec (unat (2 :: byte)) = ''2''"
    "dec (unat (3 :: byte) + 256 * unat (4 :: byte)) = ''1027''"
    by code_simp+
  moreover have "dec (unat (255 :: byte)) = ''255''"
    "dec (unat (255 :: byte) + 256 * unat (255 :: byte)) = ''65535''"
    by (simp_all add: dec_255 dec_65535)
  ultimately have "dec (unat (1 :: byte)) = ''1''" "dec (unat (2 :: byte)) = ''2''"
    "dec (unat (3 :: byte) + 256 * unat (4 :: byte)) = ''1027''"
    "dec (unat (255 :: byte)) = ''255''"
    "dec (unat (255 :: byte) + 256 * unat (255 :: byte)) = ''65535''"
    by simp_all
  with general [of old 1 2 3 4] general [of old 255 255 255 255]
    general [of old major minor p_lo p_hi]
  show ?thesis by simp
qed

subsection \<open>Capability dispatch\<close>

text \<open>
  C6. For a session and each of the six dispatch functions: when the session's driver
  has the capability, the call returns what the driver function returns (its result,
  the session and the world as the driver left them) and makes that one driver call;
  when the driver pointer is null or the capability is missing, the call returns -1,
  leaves the session and the world (and so every output parameter) as they were, and
  makes no call that talks to the device.
\<close>

theorem capability_dispatch:
  "(driver obj = Some drv \<and> date_time_set drv = Some f_dt \<and> f_dt (state obj) tm w = (ret, st', w')
      \<longrightarrow> libambit_date_time_set (Some obj) tm w
            = Inr (ret, obj\<lparr>state := st'\<rparr>, [Driver_call Cap_date_time_set], w'))
   \<and> (driver obj = Some drv \<and> status_get drv = Some f_st
        \<and> f_st (state obj) status w = (ret, st', w')
      \<longrightarrow> libambit_device_status_get (Some obj) status w
            = Inr (ret, obj\<lparr>state := st'\<rparr>, [Driver_call Cap_status_get], w'))
   \<and> (driver obj = Some drv \<and> personal_settings_get drv = Some f_ps
        \<and> f_ps (state obj) settings w = (ret, st', w')
      \<longrightarrow> libambit_personal_settings_get (Some obj) settings w
            = Inr (ret, obj\<lparr>state := st'\<rparr>, [Driver_call Cap_personal_settings_get], w'))
   \<and> (driver obj = Some drv \<and> gps_orbit_header_read drv = Some f_hr
        \<and> f_hr (state obj) data w = (ret, st', w')
      \<longrightarrow> libambit_gps_orbit_header_read (Some obj) data w
            = Inr (ret, obj\<lparr>state := st'\<rparr>, [Driver_call Cap_gps_orbit_header_read], w'))
   \<and> (driver obj = Some drv \<and> gps_orbit_write drv = Some f_ow
        \<and> f_ow (state obj) data datalen w = (ret, st', w')
      \<longrightarrow> libambit_gps_orbit_write (Some obj) data datalen w
            = Inr (ret, obj\<lparr>state := st'\<rparr>, [Driver_call Cap_gps_orbit_write], w'))
   \<and> (driver obj = Some drv \<and> log_read drv = Some f_lr
        \<and> f_lr (state obj) skip_cb push_cb progress_cb userref w = (ret, st', w')
      \<longrightarrow> libambit_log_read (Some obj) skip_cb push_cb progress_cb userref w
            = Inr (ret, obj\<lparr>state := st'\<rparr>, [Driver_call Cap_log_read], w'))
   \<and> (driver obj = None \<or> (driver obj = Some drv \<and> date_time_set drv = None)
      \<longrightarrow> (\<exists>evs. libambit_date_time_set (Some obj) tm w = Inr (- 1, obj, evs, w)
                 \<and> \<not> list_ex is_io evs))
   \<and> (driver obj = None \<or> (driver obj = Some drv \<and> status_get drv = None)
      \<longrightarrow> (\<exists>evs. libambit_device_status_get (Some obj) status w = Inr (- 1, obj, evs, w)
                 \<and> \<not> list_ex is_io evs))
   \<and> (driver obj = None \<or> (driver obj = Some drv \<and> personal_settings_get drv = None)
      \<longrightarrow> (\<exists>evs. libambit_personal_settings_get (Some obj) settings w = Inr (- 1, obj, evs, w)
                 \<and> \<not> list_ex is_io evs))
   \<and> (driver obj = None \<or> (driver obj = Some drv \<and> gps_orbit_header_read drv = None)
      \<longrightarrow> (\<exists>evs. libambit_gps_orbit_header_read (Some obj) data w = Inr (- 1, obj, evs, w)
                 \<and> \<not> list_ex is_io evs))
   \<and> (driver obj = None \<or> (driver obj = Some drv \<and> gps_orbit_write drv = None)
      \<longrightarrow> (\<exists>evs. libambit_gps_orbit_write (Some obj) data datalen w = Inr (- 1, obj, evs, w)
                 \<and> \<not> list_ex is_io evs))
   \<and> (driver obj = None \<or> (driver obj = Some drv \<and> log_read drv = None)
      \<longrightarrow> (\<exists>evs. libambit_log_read (Some obj) skip_cb push_cb progress_cb userref w
                   = Inr (- 1, obj, evs, w)
                 \<and> \<not> list_ex is_io evs))"
  by (auto simp add: libambit_date_time_set_def libambit_device_status_get_def
      libambit_personal_settings_get_def libambit_gps_orbit_header_read_def
      libambit_gps_orbit_write_def libambit_log_read_def)


theorem capability_dispatch_witness:
  "libambit_date_time_set (Some (fixture_object (Some fixture_driver))) 9 0
     = Inr (9, fixture_object (Some fixture_driver), [Driver_call Cap_date_time_set], 1)
   \<and> libambit_device_status_get (Some (fixture_object (Some fixture_driver))) 9 0
     = Inr (0, fixture_object (Some fixture_driver), [Driver_call Cap_status_get], 1)
   \<and> libambit_personal_settings_get (Some (fixture_object (Some fixture_driver))) 9 0
     = Inr (0, fixture_object (Some fixture_driver), [Driver_call Cap_personal_settings_get], 1)
   \<and> libambit_gps_orbit_header_read (Some (fixture_object (Some fixture_driver))) 9 0
     = Inr (0, fixture_object (Some fixture_driver), [Driver_call Cap_gps_orbit_header_read], 1)
   \<and> libambit_gps_orbit_write (Some (fixture_object (Some fixture_driver))) 9 8 0
     = Inr (8, fixture_object (Some fixture_driver), [Driver_call Cap_gps_orbit_write], 1)
   \<and> libambit_log_read (Some (fixture_object (Some fixture_driver))) 1 2 3 4 0
     = Inr (3, (fixture_object (Some fixture_driver))\<lparr>state := fixture_state\<lparr>sequence_no := 1\<rparr>\<rparr>,
            [Driver_call Cap_log_read], 1)
   \<and> (\<exists>evs. libambit_date_time_set (Some (fixture_object None)) 9 0
                = Inr (- 1, fixture_object None, evs, 0) \<and> \<not> list_ex is_io evs)
   \<and> (\<exists>evs. libambit_device_status_get (Some (fixture_object None)) 9 0
                = Inr (- 1, fixture_object None, evs, 0) \<and> \<not> list_ex is_io evs)
   \<and> (\<exists>evs. libambit_personal_settings_get (Some (fixture_object None)) 9 0
                = Inr (- 1, fixture_object None, evs, 0) \<and> \<not> list_ex is_io evs)
   \<and> (\<exists>evs. libambit_gps_orbit_header_read (Some (fixture_object (Some fixture_bare_driver))) 9 0
                = Inr (- 1, fixture_object (Some fixture_bare_driver), evs, 0)
              \<and> \<not> list_ex is_io evs)
   \<and> (\<exists>evs. libambit_gps_orbit_write (Some (fixture_object (Some fixture_bare_driver))) 9 8 0
                = Inr (- 1, fixture_object (Some fixture_bare_driver), evs, 0)
              \<and> \<not> list_ex is_io evs)
   \<and> (\<exists>evs. libambit_log_read (Some (fixture_object (Some fixture_bare_driver))) 1 2 3 4 0
                = Inr (- 1, fixture_object (Some fixture_bare_driver), evs, 0)
              \<and> \<not> list_ex is_io evs)"
proof -
  let ?full = "fixture_object (Some fixture_driver)"
  note present = capability_dispatch [where obj = ?full and drv = fixture_driver and w = 0
      and w' = 1 and tm = 9 and status = 9 and settings = 9 and data = 9 and datalen = 8
      and skip_cb = 1 and push_cb = 2 and progress_cb = 3 and userref = 4
      and f_dt = "\<lambda>st tm w. (int tm, st, Suc w)"
      and f_st = "\<lambda>st status w. (0, st, Suc w)"
      and f_ps = "\<lambda>st settings w. (0, st, Suc w)"
      and f_hr = "\<lambda>st data w. (0, st, Suc w)"
      and f_ow = "\<lambda>st data datalen w. (int datalen, st, Suc w)"
      and f_lr = "\<lambda>st skip_cb push_cb progress_cb userref w.
                  (3, st\<lparr>sequence_no := sequence_no st + 1\<rparr>, Suc w)"]
  have a: "libambit_date_time_set (Some ?full) 9 0
      = Inr (9, ?full, [Driver_call Cap_date_time_set], 1)"
    using present [where ret = 9 and st' = fixture_state]
    by (simp add: fixture_object_def fixture_driver_def)
  have b: "libambit_device_status_get (Some ?full) 9 0
      = Inr (0, ?full, [Driver_call Cap_status_get], 1)"
    "libambit_personal_settings_get (Some ?full) 9 0
      = Inr (0, ?full, [Driver_call Cap_personal_settings_get], 1)"
    "libambit_gps_orbit_header_read (Some ?full) 9 0
      = Inr (0, ?full, [Driver_call Cap_gps_orbit_header_read], 1)"
    using present [where ret = 0 and st' = fixture_state]
    by (simp_all add: fixture_object_def fixture_driver_def)
  have c: "libambit_gps_orbit_write (Some ?full) 9 8 0
      = Inr (8, ?full, [Driver_call Cap_gps_orbit_write], 1)"
    using present [where ret = 8 and st' = fixture_state]
    by (simp add: fixture_object_def fixture_driver_def)
  have d: "libambit_log_read (Some ?full) 1 2 3 4 0
      = Inr (3, ?full\<lparr>state := fixture_state\<lparr>sequence_no := 1\<rparr>\<rparr>, [Driver_call Cap_log_read], 1)"
    using present [where ret = 3 and st' = "fixture_state\<lparr>sequence_no := 1\<rparr>"]
    by (simp add: fixture_object_def fixture_driver_def fixture_state_def)
  note absent = capability_dispatch [where obj = "fixture_object None" and w = 0
      and tm = 9 and status = 9 and settings = 9]
  note bare = capability_dispatch [where obj = "fixture_object (Some fixture_bare_driver)"
      and drv = fixture_bare_driver and w = 0 and data = 9 and datalen = 8
      and skip_cb = 1 and push_cb = 2 and progress_cb = 3 and userref = 4]
  have e: "\<exists>evs. libambit_date_time_set (Some (fixture_object None)) 9 0
                = Inr (- 1, fixture_object None, evs, 0) \<and> \<not> list_ex is_io evs"
    "\<exists>evs. libambit_device_status_get (Some (fixture_object None)) 9 0
                = Inr (- 1, fixture_object None, evs, 0) \<and> \<not> list_ex is_io evs"
    "\<exists>evs. libambit_personal_settings_get (Some (fixture_object None)) 9 0
                = Inr (- 1, fixture_object None, evs, 0) \<and> \<not> list_ex is_io evs"
    using absent by (simp_all add: fixture_object_def)
  have f: "\<exists>evs. libambit_gps_orbit_header_read (Some (fixture_object (Some fixture_bare_driver))) 9 0
                = Inr (- 1, fixture_object (Some fixture_bare_driver), evs, 0)
              \<and> \<not> list_ex is_io evs"
    "\<exists>evs. libambit_gps_orbit_write (Some (fixture_object (Some fixture_bare_driver))) 9 8 0
                = Inr (- 1, fixture_object (Some fixture_bare_driver), evs, 0)
              \<and> \<not> list_ex is_io evs"
    "\<exists>evs. libambit_log_read (Some (fixture_object (Some fixture_bare_driver))) 1 2 3 4 0
                = Inr (- 1, fixture_object (Some fixture_bare_driver), evs, 0)
              \<and> \<not> list_ex is_io evs"
    using bare by (simp_all add: fixture_object_def fixture_bare_driver_def)
  from a b c d e f show ?thesis by simp
qed

text \<open>
  C10. With a null session each of the six dispatch functions faults on reading the
  driver pointer; with a session each returns, either -1 or after the one call into
  the driver whose result it passes on. \<open>libambit_close\<close> alone accepts a null session.
\<close>

theorem dispatch_null_session:
  "libambit_date_time_set None tm w = Inl Null_dereference
   \<and> libambit_device_status_get None status w = Inl Null_dereference
   \<and> libambit_personal_settings_get None settings w = Inl Null_dereference
   \<and> libambit_gps_orbit_header_read None data w = Inl Null_dereference
   \<and> libambit_gps_orbit_write None data datalen w = Inl Null_dereference
   \<and> libambit_log_read None skip_cb push_cb progress_cb userref w = Inl Null_dereference
   \<and> (\<exists>ret obj' evs w'. libambit_date_time_set (Some obj) tm w = Inr (ret, obj', evs, w')
         \<and> (ret = - 1 \<or> evs = [Driver_call Cap_date_time_set]))
   \<and> (\<exists>ret obj' evs w'. libambit_device_status_get (Some obj) status w = Inr (ret, obj', evs, w')
         \<and> (ret = - 1 \<or> evs = [Driver_call Cap_status_get]))
   \<and> (\<exists>ret obj' evs w'.
         libambit_personal_settings_get (Some obj) settings w = Inr (ret, obj', evs, w')
         \<and> (ret = - 1 \<or> evs = [Driver_call Cap_personal_settings_get]))
   \<and> (\<exists>ret obj' evs w'.
         libambit_gps_orbit_header_read (Some obj) data w = Inr (ret, obj', evs, w')
         \<and> (ret = - 1 \<or> evs = [Driver_call Cap_gps_orbit_header_read]))
   \<and> (\<exists>ret obj' evs w'.
         libambit_gps_orbit_write (Some obj) data datalen w = Inr (ret, obj', evs, w')
         \<and> (ret = - 1 \<or> evs = [Driver_call Cap_gps_orbit_write]))
   \<and> (\<exists>ret obj' evs w'.
         libambit_log_read (Some obj) skip_cb push_cb progress_cb userref w
           = Inr (ret, obj', evs, w')
         \<and> (ret = - 1 \<or> evs = [Driver_call Cap_log_read]))
   \<and> libambit_close None w = ([Log LOG_INFO ''Closing''], w)"
  by (simp add: libambit_date_time_set_def libambit_device_status_get_def
      libambit_personal_settings_get_def libambit_gps_orbit_header_read_def
      libambit_gps_orbit_write_def libambit_log_read_def libambit_close_def
      split: option.split prod.split)

subsection \<open>libambit_close\<close>

lemma libambit_close_refines:
  "libambit_close (Some obj) w =
     (Log LOG_INFO ''Closing'' # fst (snd (close_spec obj w)), snd (snd (close_spec obj w)))"
  by (simp add: libambit_close_def close_spec_def release_lock_step_def deinit_step_def
      close_handle_step_def free_path_step_def free_session_step_def
      split: option.split prod.split)

lemma libambit_close_trace:
  "fst (libambit_close (Some obj) w) =
     Log LOG_INFO ''Closing''
     # (if \<exists>drv f. driver obj = Some drv \<and> lock_log drv = Some f
        then [Driver_call (Cap_lock_log False)] else [])
     @ (if \<exists>drv g. driver obj = Some drv \<and> deinit drv = Some g
        then [Driver_call Cap_deinit] else [])
     @ (case handle (fst (close_spec obj w)) of None \<Rightarrow> [] | Some h \<Rightarrow> [Hid_close h])
     @ [Free_path (path (device_info (fst (close_spec obj w)))), Free_object]"
  by (simp add: libambit_close_def close_spec_def release_lock_step_def deinit_step_def
      close_handle_step_def free_path_step_def free_session_step_def
      split: option.split prod.split)


lemma sorted_close_shape:
  "L = [] \<or> L = [Driver_call (Cap_lock_log False)] \<Longrightarrow>
   D = [] \<or> D = [Driver_call Cap_deinit] \<Longrightarrow>
   H = [] \<or> (\<exists>h. H = [Hid_close h]) \<Longrightarrow>
   sorted_wrt (<) (map step_rank (Log LOG_INFO ''Closing'' # L @ D @ H @ [Free_path p, Free_object]))"
  by (elim disjE exE) simp_all


lemma close_sorted: "sorted_wrt (<) (map step_rank (fst (libambit_close (Some obj) w)))"
  by (subst libambit_close_trace, rule sorted_close_shape) (simp_all split: option.split)

lemma close_lock:
  "Driver_call (Cap_lock_log False) \<in> set (fst (libambit_close (Some obj) w))
     \<longleftrightarrow> (\<exists>drv f. driver obj = Some drv \<and> lock_log drv = Some f)"
  by (subst libambit_close_trace) (simp split: option.split)

lemma close_deinit:
  "Driver_call Cap_deinit \<in> set (fst (libambit_close (Some obj) w))
     \<longleftrightarrow> (\<exists>drv g. driver obj = Some drv \<and> deinit drv = Some g)"
  by (subst libambit_close_trace) (simp split: option.split)

lemma close_tail:
  "\<exists>evs p. fst (libambit_close (Some obj) w) = evs @ [Free_path p, Free_object]"
proof -
  let ?L = "if \<exists>drv f. driver obj = Some drv \<and> lock_log drv = Some f
        then [Driver_call (Cap_lock_log False)] else []"
  let ?D = "if \<exists>drv g. driver obj = Some drv \<and> deinit drv = Some g
        then [Driver_call Cap_deinit] else []"
  let ?H = "case handle (fst (close_spec obj w)) of None \<Rightarrow> [] | Some h \<Rightarrow> [Hid_close h]"
  have "fst (libambit_close (Some obj) w) =
      (Log LOG_INFO ''Closing'' # ?L @ ?D @ ?H)
      @ [Free_path (path (device_info (fst (close_spec obj w)))), Free_object]"
    by (subst libambit_close_trace) simp
  then show ?thesis by blast
qed

text \<open>
  C4. \<open>libambit_close\<close> on a null session only prints its diagnostic. On a session it
  makes the calls of the five teardown steps in their order: the lock release when the
  driver is bound and has \<open>lock_log\<close>, the deinitializer when the driver has one, the
  close of the handle when it is open, the release of the path, the release of the
  session. Each step occurs at most once and in that order, the lock release and the
  deinitializer occur exactly when the driver provides them, and the two releases end
  every run.
\<close>

theorem libambit_close_order:
  "libambit_close None w = ([Log LOG_INFO ''Closing''], w)
   \<and> libambit_close (Some obj) w =
       (Log LOG_INFO ''Closing'' # fst (snd (close_spec obj w)), snd (snd (close_spec obj w)))
   \<and> sorted_wrt (<) (map step_rank (fst (libambit_close (Some obj) w)))
   \<and> (Driver_call (Cap_lock_log False) \<in> set (fst (libambit_close (Some obj) w))
        \<longleftrightarrow> (\<exists>drv f. driver obj = Some drv \<and> lock_log drv = Some f))
   \<and> (Driver_call Cap_deinit \<in> set (fst (libambit_close (Some obj) w))
        \<longleftrightarrow> (\<exists>drv g. driver obj = Some drv \<and> deinit drv = Some g))
   \<and> (\<exists>evs p. fst (libambit_close (Some obj) w) = evs @ [Free_path p, Free_object])"
proof -
  have null: "libambit_close None w = ([Log LOG_INFO ''Closing''], w)"
    by (simp add: libambit_close_def)
  from null libambit_close_refines [of obj w] close_sorted [of obj w] close_lock [of obj w]
    close_deinit [of obj w] close_tail [of obj w]
  show ?thesis by (intro conjI)
qed

theorem libambit_close_order_witness:
  "libambit_close (Some (fixture_object (Some fixture_driver))) 0 =
     ([Log LOG_INFO ''Closing'', Driver_call (Cap_lock_log False), Driver_call Cap_deinit,
       Hid_close 5, Free_path (Some ''/dev/hidraw0''), Free_object], 1)
   \<and> libambit_close (Some (fixture_object None)) 0 =
     ([Log LOG_INFO ''Closing'', Hid_close 5, Free_path (Some ''/dev/hidraw0''), Free_object], 0)"
proof -
  have "libambit_close (Some (fixture_object (Some fixture_driver))) 0 =
     ([Log LOG_INFO ''Closing'', Driver_call (Cap_lock_log False), Driver_call Cap_deinit,
       Hid_close 5, Free_path (Some ''/dev/hidraw0''), Free_object], 1)"
    using libambit_close_order [of 0 "fixture_object (Some fixture_driver)"]
    by (simp add: close_spec_def release_lock_step_def deinit_step_def
      close_handle_step_def free_path_step_def free_session_step_def
      fixture_object_def fixture_driver_def fixture_state_def fixture_info_def)
  moreover have "libambit_close (Some (fixture_object None)) 0 =
     ([Log LOG_INFO ''Closing'', Hid_close 5, Free_path (Some ''/dev/hidraw0''), Free_object], 0)"
    using libambit_close_order [of 0 "fixture_object None"]
    by (simp add: close_spec_def release_lock_step_def deinit_step_def
      close_handle_step_def free_path_step_def free_session_step_def
      fixture_object_def fixture_state_def fixture_info_def)
  ultimately show ?thesis by simp
qed


subsection \<open>libambit_log_entry_free\<close>

lemma sample_free_payload: "sample_free s = (case payload s of None \<Rightarrow> [] | Some p \<Rightarrow> [p])"
  by (cases s) simp_all

lemma map_filter_payload: "List.map_filter payload arr = concat (map sample_free arr)"
  by (induction arr) (simp_all add: sample_free_payload split: option.split)

lemma samples_free_loop_all:
  "i \<le> length arr \<Longrightarrow>
   samples_free_loop arr (length arr) i = Inr (concat (map sample_free (drop i arr)))"
proof (induction "length arr - i" arbitrary: i)
  case 0
  then have "\<not> i < length arr" by simp
  then show ?case by (subst samples_free_loop.simps) simp
next
  case (Suc k)
  then have lt: "i < length arr" and k: "k = length arr - Suc i" by simp_all
  from Suc.hyps(1) [OF k] lt
  have "samples_free_loop arr (length arr) (Suc i) = Inr (concat (map sample_free (drop (Suc i) arr)))"
    by simp
  with lt show ?case
    by (subst samples_free_loop.simps) (simp add: Cons_nth_drop_Suc [symmetric])
qed

lemma log_entry_free_owned:
  "(case samples entry of None \<Rightarrow> True | Some (samples_ptr, arr) \<Rightarrow> samples_count entry = length arr)
   \<Longrightarrow> libambit_log_entry_free (Some (entry_ptr, entry)) = Inr (owned_allocations (entry_ptr, entry))"
  by (auto simp add: libambit_log_entry_free_def owned_allocations_def samples_free_loop_all
      map_filter_payload split: option.splits)

lemma distinct_count_list: "distinct xs \<Longrightarrow> x \<in> set xs \<Longrightarrow> count_list xs x = 1"
  by (induction xs) auto

text \<open>
  C5. \<open>libambit_log_entry_free\<close> on a null entry frees nothing. On an entry whose
  sample array holds \<open>samples_count\<close> samples it frees, in this order, the payload of
  each sample that its tag selects when that pointer is not null, then the sample
  array, then the entry: exactly the allocations the entry owns. When these are
  distinct allocations, each of them is freed exactly once.
\<close>

theorem log_entry_free_exactly_once:
  "libambit_log_entry_free None = Inr []
   \<and> ((case samples entry of
          None \<Rightarrow> True
        | Some (samples_ptr, arr) \<Rightarrow> samples_count entry = length arr)
      \<longrightarrow> libambit_log_entry_free (Some (entry_ptr, entry))
            = Inr (owned_allocations (entry_ptr, entry))
          \<and> (distinct (owned_allocations (entry_ptr, entry)) \<and> p \<in> set (owned_allocations (entry_ptr, entry))
             \<longrightarrow> count_list (projr (libambit_log_entry_free (Some (entry_ptr, entry)))) p = 1))"
  using log_entry_free_owned [of entry entry_ptr]
  by (simp add: libambit_log_entry_free_def distinct_count_list)

theorem log_entry_free_exactly_once_witness:
  "libambit_log_entry_free (Some (30, fixture_entry)) = Inr [10, 11, 12, 20, 30]
   \<and> count_list (projr (libambit_log_entry_free (Some (30, fixture_entry)))) 11 = 1"
  using log_entry_free_exactly_once [of fixture_entry 30 11]
  by (simp add: fixture_entry_def owned_allocations_def)

subsection \<open>libambit_new\<close>

lemma unavailable_record_result:
  "access_status dev \<noteq> 0 \<or> \<not> is_supported dev \<Longrightarrow>
   libambit_new env (Some dev) pl w =
     Inr (None,
          (case path dev of
             None \<Rightarrow> [Log LOG_ERROR ''Invalid argument'']
           | Some p \<Rightarrow> if fst (acquire pl) then [Strdup p, Free_path (Some p)] else []),
          (case path dev of None \<Rightarrow> pl | Some p \<Rightarrow> snd (acquire pl)), w)"
  by (auto simp add: libambit_new_def split: option.split prod.split)

text \<open>
  C2, amended. For a record with a non-zero access status or a false support flag,
  \<open>libambit_new\<close> returns null and leaves the world as it was: it allocates no
  session, does not consult the registry and makes no call to the HID library or a
  driver. With a path it first duplicates the path and releases the duplicate before
  returning (nothing at all when the duplication fails); with a null path it only
  prints the diagnostic.
\<close>

theorem libambit_new_unavailable:
  "access_status dev \<noteq> 0 \<or> \<not> is_supported dev \<longrightarrow>
     (\<exists>evs. libambit_new env (Some dev) pl w
               = Inr (None, evs, (if path dev = None then pl else snd (acquire pl)), w)
        \<and> \<not> list_ex is_io evs
        \<and> Calloc_object \<notin> set evs
        \<and> Support_find \<notin> set evs
        \<and> (evs = [Log LOG_ERROR ''Invalid argument''] \<and> path dev = None
            \<or> evs = [] \<and> path dev \<noteq> None \<and> fst (acquire pl) = False
            \<or> evs = [Strdup (the (path dev)), Free_path (path dev)] \<and> path dev \<noteq> None
               \<and> fst (acquire pl) = True))"
proof
  assume a: "access_status dev \<noteq> 0 \<or> \<not> is_supported dev"
  show "\<exists>evs. libambit_new env (Some dev) pl w
               = Inr (None, evs, (if path dev = None then pl else snd (acquire pl)), w)
        \<and> \<not> list_ex is_io evs
        \<and> Calloc_object \<notin> set evs
        \<and> Support_find \<notin> set evs
        \<and> (evs = [Log LOG_ERROR ''Invalid argument''] \<and> path dev = None
            \<or> evs = [] \<and> path dev \<noteq> None \<and> fst (acquire pl) = False
            \<or> evs = [Strdup (the (path dev)), Free_path (path dev)] \<and> path dev \<noteq> None
               \<and> fst (acquire pl) = True)"
    unfolding unavailable_record_result [OF a]
    by (cases "path dev") auto
qed

theorem libambit_new_unavailable_witness:
  "libambit_new fixture_env (Some (fixture_info\<lparr>access_status := 13\<rparr>)) [] 0
     = Inr (None, [Strdup ''/dev/hidraw0'', Free_path (Some ''/dev/hidraw0'')], [], 0)
   \<and> libambit_new fixture_env (Some (fixture_info\<lparr>is_supported := False\<rparr>)) [False] 0
     = Inr (None, [], [], 0)"
proof -
  have "libambit_new fixture_env (Some (fixture_info\<lparr>access_status := 13\<rparr>)) [] 0
     = Inr (None, [Strdup ''/dev/hidraw0'', Free_path (Some ''/dev/hidraw0'')], [], 0)"
    using libambit_new_unavailable [of "fixture_info\<lparr>access_status := 13\<rparr>" fixture_env "[]" 0]
    by (auto simp add: fixture_info_def)
  moreover have "libambit_new fixture_env (Some (fixture_info\<lparr>is_supported := False\<rparr>)) [False] 0
     = Inr (None, [], [], 0)"
    using libambit_new_unavailable [of "fixture_info\<lparr>is_supported := False\<rparr>" fixture_env "[False]" 0]
    by (auto simp add: fixture_info_def)
  ultimately show ?thesis by simp
qed

text \<open>
  C2 as stated fails: for a record with access status 13 the call does allocate, the
  duplicate of the path.
\<close>

theorem libambit_new_unavailable_allocates:
  "libambit_new fixture_env (Some (fixture_info\<lparr>access_status := 13\<rparr>)) [] 0
     = Inr (None, [Strdup ''/dev/hidraw0'', Free_path (Some ''/dev/hidraw0'')], [], 0)
   \<and> list_ex is_alloc [Strdup ''/dev/hidraw0'', Free_path (Some ''/dev/hidraw0'')]"
  by (simp add: libambit_new_def fixture_info_def)


subsection \<open>device_info_get\<close>

lemma cstr_no_nul: "0 \<notin> set (cstr mem)"
  by (auto simp add: cstr_def dest: set_takeWhileD)

lemma cstr_length: "length (cstr mem) \<le> length mem"
  by (simp add: cstr_def length_takeWhile_le)

lemma cstr_append_nul: "0 \<notin> set s \<Longrightarrow> cstr (s @ 0 # rest) = s"
  by (induction s) (auto simp add: cstr_def)

text \<open>A character array of \<open>n + 1\<close> octets after \<^verbatim>\<open>strncpy(dst, src, n); dst[n] = 0\<close>.\<close>

lemma strncpy_terminated:
  assumes "length dst = n + 1"
  shows "(strncpy dst src n)[n := 0] = take n (cstr src @ replicate n 0) @ [0]"
proof -
  define pad where "pad = take n (cstr src @ replicate n 0)"
  have n: "length pad = n" by (simp add: pad_def)
  have "length (drop n dst) = 1" using assms by simp
  then obtain b where "drop n dst = [b]"
    by (cases "drop n dst") simp_all
  then have "strncpy dst src n = pad @ [b]"
    by (simp add: strncpy_def pad_def)
  then have "(strncpy dst src n)[length pad := 0] = pad @ [0]"
    by (simp only: list_update_length)
  then have "(strncpy dst src n)[n := 0] = pad @ [0]"
    by (simp only: n)
  then show ?thesis by (simp only: pad_def)
qed

lemma cstr_strncpy_terminated:
  assumes "length dst = n + 1"
  shows "cstr ((strncpy dst src n)[n := 0]) = take n (cstr src)"
proof -
  let ?c = "take n (cstr src)"
  have nonul: "0 \<notin> set ?c" using cstr_no_nul [of src] by (auto dest: in_set_takeD)
  have "take n (cstr src @ replicate n 0) @ [0] = ?c @ replicate (n - length (cstr src)) 0 @ [0]"
    by simp
  also have "\<dots> = ?c @ 0 # replicate (n - length (cstr src)) 0"
    by (simp add: replicate_append_same)
  finally show ?thesis
    using nonul by (simp add: strncpy_terminated [OF assms] cstr_append_nul)
qed

lemma utf8strncpy_in_bounds:
  "off + n \<le> length mem \<Longrightarrow>
   utf8strncpy dst mem off n = Inr (strncpy dst (take n (drop off mem)) n)"
  by (simp add: utf8strncpy_def Let_def)

lemma memcpy4_in_bounds:
  "off + 4 \<le> length mem \<Longrightarrow>
   memcpy4 mem off = Inr (mem ! off, mem ! (off + 1), mem ! (off + 2), mem ! (off + 3))"
  by (simp add: memcpy4_def)

lemma device_info_get_success:
  assumes cmd: "libambit_protocol_command env (fst object) (snd object)
                  ambit_command_device_info komposti_version = Some reply"
    and len: "LIBAMBIT_MODEL_NAME_LENGTH env + LIBAMBIT_SERIAL_LENGTH env + 8 \<le> length reply"
  shows "device_info_get env object (Some i) =
     Inr (0, Some (i\<lparr>
       model := (strncpy (model i) (take (LIBAMBIT_MODEL_NAME_LENGTH env) reply)
                   (LIBAMBIT_MODEL_NAME_LENGTH env))[LIBAMBIT_MODEL_NAME_LENGTH env := 0],
       serial := (strncpy (serial i)
                    (take (LIBAMBIT_SERIAL_LENGTH env) (drop (LIBAMBIT_MODEL_NAME_LENGTH env) reply))
                    (LIBAMBIT_SERIAL_LENGTH env))[LIBAMBIT_SERIAL_LENGTH env := 0],
       fw_version :=
         (reply ! (LIBAMBIT_MODEL_NAME_LENGTH env + LIBAMBIT_SERIAL_LENGTH env),
          reply ! (LIBAMBIT_MODEL_NAME_LENGTH env + LIBAMBIT_SERIAL_LENGTH env + 1),
          reply ! (LIBAMBIT_MODEL_NAME_LENGTH env + LIBAMBIT_SERIAL_LENGTH env + 2),
          reply ! (LIBAMBIT_MODEL_NAME_LENGTH env + LIBAMBIT_SERIAL_LENGTH env + 3)),
       hw_version :=
         (reply ! (LIBAMBIT_MODEL_NAME_LENGTH env + LIBAMBIT_SERIAL_LENGTH env + 4),
          reply ! (LIBAMBIT_MODEL_NAME_LENGTH env + LIBAMBIT_SERIAL_LENGTH env + 4 + 1),
          reply ! (LIBAMBIT_MODEL_NAME_LENGTH env + LIBAMBIT_SERIAL_LENGTH env + 4 + 2),
          reply ! (LIBAMBIT_MODEL_NAME_LENGTH env + LIBAMBIT_SERIAL_LENGTH env + 4 + 3))\<rparr>))"
proof -
  let ?M = "LIBAMBIT_MODEL_NAME_LENGTH env" and ?S = "LIBAMBIT_SERIAL_LENGTH env"
  have m: "utf8strncpy (model i) reply 0 ?M = Inr (strncpy (model i) (take ?M reply) ?M)"
    using len utf8strncpy_in_bounds [of 0 ?M reply "model i"] by simp
  have s: "utf8strncpy (serial i) reply ?M ?S
      = Inr (strncpy (serial i) (take ?S (drop ?M reply)) ?S)"
    using len by (intro utf8strncpy_in_bounds) simp
  have f: "memcpy4 reply (?M + ?S)
      = Inr (reply ! (?M + ?S), reply ! (?M + ?S + 1), reply ! (?M + ?S + 2), reply ! (?M + ?S + 3))"
    using len by (intro memcpy4_in_bounds) simp
  have h: "memcpy4 reply (?M + ?S + 4)
      = Inr (reply ! (?M + ?S + 4), reply ! (?M + ?S + 4 + 1), reply ! (?M + ?S + 4 + 2),
             reply ! (?M + ?S + 4 + 3))"
    using len by (intro memcpy4_in_bounds) simp
  show ?thesis
    by (simp only: device_info_get_def cmd m s f h option.case sum.case prod.case)
qed

text \<open>
  C9. When the probe succeeds with a reply that holds the whole layout (model field,
  serial field, 4 + 4 version octets) and the record's arrays have their declared
  sizes, \<open>device_info_get\<close> returns 0 and leaves in the record: as model the string
  in the first \<^verbatim>\<open>LIBAMBIT_MODEL_NAME_LENGTH\<close> octets of the reply, as serial the string
  in the next \<^verbatim>\<open>LIBAMBIT_SERIAL_LENGTH\<close> octets, both arrays terminated at their maximum
  length, as firmware version the next 4 octets and as hardware version the 4 octets
  after these; no other field changes. When the probe fails it returns -1 and the
  record is untouched.
\<close>

theorem device_info_get_layout:
  "(libambit_protocol_command env (fst object) (snd object)
       ambit_command_device_info komposti_version = Some reply
    \<and> LIBAMBIT_MODEL_NAME_LENGTH env + LIBAMBIT_SERIAL_LENGTH env + 8 \<le> length reply
    \<and> length (model i) = LIBAMBIT_MODEL_NAME_LENGTH env + 1
    \<and> length (serial i) = LIBAMBIT_SERIAL_LENGTH env + 1
    \<longrightarrow> (\<exists>i'. device_info_get env object (Some i) = Inr (0, Some i')
          \<and> cstr (model i') = cstr (take (LIBAMBIT_MODEL_NAME_LENGTH env) reply)
          \<and> length (model i') = LIBAMBIT_MODEL_NAME_LENGTH env + 1
          \<and> model i' ! LIBAMBIT_MODEL_NAME_LENGTH env = 0
          \<and> cstr (serial i')
              = cstr (take (LIBAMBIT_SERIAL_LENGTH env) (drop (LIBAMBIT_MODEL_NAME_LENGTH env) reply))
          \<and> length (serial i') = LIBAMBIT_SERIAL_LENGTH env + 1
          \<and> serial i' ! LIBAMBIT_SERIAL_LENGTH env = 0
          \<and> fw_version i'
              = (reply ! (LIBAMBIT_MODEL_NAME_LENGTH env + LIBAMBIT_SERIAL_LENGTH env),
                 reply ! (LIBAMBIT_MODEL_NAME_LENGTH env + LIBAMBIT_SERIAL_LENGTH env + 1),
                 reply ! (LIBAMBIT_MODEL_NAME_LENGTH env + LIBAMBIT_SERIAL_LENGTH env + 2),
                 reply ! (LIBAMBIT_MODEL_NAME_LENGTH env + LIBAMBIT_SERIAL_LENGTH env + 3))
          \<and> hw_version i'
              = (reply ! (LIBAMBIT_MODEL_NAME_LENGTH env + LIBAMBIT_SERIAL_LENGTH env + 4),
                 reply ! (LIBAMBIT_MODEL_NAME_LENGTH env + LIBAMBIT_SERIAL_LENGTH env + 5),
                 reply ! (LIBAMBIT_MODEL_NAME_LENGTH env + LIBAMBIT_SERIAL_LENGTH env + 6),
                 reply ! (LIBAMBIT_MODEL_NAME_LENGTH env + LIBAMBIT_SERIAL_LENGTH env + 7))
          \<and> i' = i\<lparr>model := model i', serial := serial i',
                    fw_version := fw_version i', hw_version := hw_version i'\<rparr>))
   \<and> (libambit_protocol_command env (fst object) (snd object)
         ambit_command_device_info komposti_version = None
      \<longrightarrow> device_info_get env object info = Inr (- 1, info))"
proof (intro conjI impI)
  assume a: "libambit_protocol_command env (fst object) (snd object)
       ambit_command_device_info komposti_version = Some reply
    \<and> LIBAMBIT_MODEL_NAME_LENGTH env + LIBAMBIT_SERIAL_LENGTH env + 8 \<le> length reply
    \<and> length (model i) = LIBAMBIT_MODEL_NAME_LENGTH env + 1
    \<and> length (serial i) = LIBAMBIT_SERIAL_LENGTH env + 1"
  let ?M = "LIBAMBIT_MODEL_NAME_LENGTH env" and ?S = "LIBAMBIT_SERIAL_LENGTH env"
  from a have lm: "length (model i) = ?M + 1" and ls: "length (serial i) = ?S + 1"
    and len: "?M + ?S + 8 \<le> length reply" by simp_all
  have cm: "cstr ((strncpy (model i) (take ?M reply) ?M)[?M := 0]) = cstr (take ?M reply)"
    using cstr_strncpy_terminated [OF lm, of "take ?M reply"] cstr_length [of "take ?M reply"]
    by simp
  have cs: "cstr ((strncpy (serial i) (take ?S (drop ?M reply)) ?S)[?S := 0])
      = cstr (take ?S (drop ?M reply))"
    using cstr_strncpy_terminated [OF ls, of "take ?S (drop ?M reply)"]
      cstr_length [of "take ?S (drop ?M reply)"]
    by simp
  have tm: "(strncpy (model i) (take ?M reply) ?M)[?M := 0] ! ?M = 0"
    "length ((strncpy (model i) (take ?M reply) ?M)[?M := 0]) = ?M + 1"
    using lm by (simp_all add: strncpy_def)
  have ts: "(strncpy (serial i) (take ?S (drop ?M reply)) ?S)[?S := 0] ! ?S = 0"
    "length ((strncpy (serial i) (take ?S (drop ?M reply)) ?S)[?S := 0]) = ?S + 1"
    using ls by (simp_all add: strncpy_def)
  from a have "device_info_get env object (Some i) = Inr (0, Some (i\<lparr>
       model := (strncpy (model i) (take ?M reply) ?M)[?M := 0],
       serial := (strncpy (serial i) (take ?S (drop ?M reply)) ?S)[?S := 0],
       fw_version := (reply ! (?M + ?S), reply ! (?M + ?S + 1), reply ! (?M + ?S + 2),
                      reply ! (?M + ?S + 3)),
       hw_version := (reply ! (?M + ?S + 4), reply ! (?M + ?S + 4 + 1), reply ! (?M + ?S + 4 + 2),
                      reply ! (?M + ?S + 4 + 3))\<rparr>))"
    by (intro device_info_get_success) simp_all
  moreover have "?M + ?S + 4 + 1 = ?M + ?S + 5" "?M + ?S + 4 + 2 = ?M + ?S + 6"
    "?M + ?S + 4 + 3 = ?M + ?S + 7" by simp_all
  ultimately have "device_info_get env object (Some i) = Inr (0, Some (i\<lparr>
       model := (strncpy (model i) (take ?M reply) ?M)[?M := 0],
       serial := (strncpy (serial i) (take ?S (drop ?M reply)) ?S)[?S := 0],
       fw_version := (reply ! (?M + ?S), reply ! (?M + ?S + 1), reply ! (?M + ?S + 2),
                      reply ! (?M + ?S + 3)),
       hw_version := (reply ! (?M + ?S + 4), reply ! (?M + ?S + 5), reply ! (?M + ?S + 6),
                      reply ! (?M + ?S + 7))\<rparr>))"
    by (simp only:)
  then show "\<exists>i'. device_info_get env object (Some i) = Inr (0, Some i')
          \<and> cstr (model i') = cstr (take ?M reply)
          \<and> length (model i') = ?M + 1
          \<and> model i' ! ?M = 0
          \<and> cstr (serial i') = cstr (take ?S (drop ?M reply))
          \<and> length (serial i') = ?S + 1
          \<and> serial i' ! ?S = 0
          \<and> fw_version i'
              = (reply ! (?M + ?S), reply ! (?M + ?S + 1), reply ! (?M + ?S + 2),
                 reply ! (?M + ?S + 3))
          \<and> hw_version i'
              = (reply ! (?M + ?S + 4), reply ! (?M + ?S + 5), reply ! (?M + ?S + 6),
                 reply ! (?M + ?S + 7))
          \<and> i' = i\<lparr>model := model i', serial := serial i',
                    fw_version := fw_version i', hw_version := hw_version i'\<rparr>"
    using cm cs tm ts by simp
next
  assume "libambit_protocol_command env (fst object) (snd object)
         ambit_command_device_info komposti_version = None"
  then show "device_info_get env object info = Inr (- 1, info)"
    by (simp add: device_info_get_def)
qed

theorem device_info_get_layout_witness:
  "(\<exists>i'. device_info_get fixture_env (5, 0) (Some (calloc_device_info fixture_env))
           = Inr (0, Some i')
        \<and> cstr (model i') = [0x50, 0x65, 0x61, 0x6b] \<and> model i' ! 4 = 0
        \<and> cstr (serial i') = [0x37] \<and> serial i' ! 4 = 0
        \<and> fw_version i' = (1, 2, 3, 4) \<and> hw_version i' = (4, 3, 2, 1))
   \<and> device_info_get fixture_env (6, 0) (Some (calloc_device_info fixture_env))
       = Inr (- 1, Some (calloc_device_info fixture_env))"
proof -
  have reply: "libambit_protocol_command fixture_env (fst (5, 0)) (snd (5, 0))
      ambit_command_device_info komposti_version
      = Some [0x50, 0x65, 0x61, 0x6b, 0x37, 0, 0, 0, 1, 2, 3, 4, 4, 3, 2, 1]"
    and no_reply: "libambit_protocol_command fixture_env (fst (6, 0)) (snd (6, 0))
      ambit_command_device_info komposti_version = None"
    and lengths: "LIBAMBIT_MODEL_NAME_LENGTH fixture_env = 4"
      "LIBAMBIT_SERIAL_LENGTH fixture_env = 4"
      "length (model (calloc_device_info fixture_env)) = 5"
      "length (serial (calloc_device_info fixture_env)) = 5"
    by (simp_all add: fixture_env_def calloc_device_info_def)
  from device_info_get_layout [of fixture_env "(5, 0)"
      "[0x50, 0x65, 0x61, 0x6b, 0x37, 0, 0, 0, 1, 2, 3, 4, 4, 3, 2, 1]"
      "calloc_device_info fixture_env"] reply lengths
  obtain i' where "device_info_get fixture_env (5, 0) (Some (calloc_device_info fixture_env))
           = Inr (0, Some i')"
    "cstr (model i') = cstr [0x50, 0x65, 0x61, 0x6b]" "model i' ! 4 = 0"
    "cstr (serial i') = cstr [0x37, 0, 0, 0]" "serial i' ! 4 = 0"
    "fw_version i' = (1, 2, 3, 4)" "hw_version i' = (4, 3, 2, 1)"
    by auto
  moreover have "cstr [0x50, 0x65, 0x61, 0x6b] = [0x50, 0x65, 0x61, 0x6b :: byte]"
    "cstr [0x37, 0, 0, 0] = [0x37 :: byte]"
    by (simp_all add: cstr_def)
  moreover from device_info_get_layout [of fixture_env "(6, 0)" _ _
      "Some (calloc_device_info fixture_env)"] no_reply
  have "device_info_get fixture_env (6, 0) (Some (calloc_device_info fixture_env))
       = Inr (- 1, Some (calloc_device_info fixture_env))"
    by simp
  ultimately show ?thesis by auto
qed


subsection \<open>ambit_device_info_new and libambit_enumerate\<close>

lemma device_info_get_frame:
  "device_info_get env obj (Some i) = Inr (ret, Some i') \<Longrightarrow>
   path i' = path i \<and> access_status i' = access_status i \<and> vendor_id i' = vendor_id i
   \<and> product_id i' = product_id i \<and> name i' = name i \<and> is_supported i' = is_supported i"
  by (auto simp add: device_info_get_def split: option.splits sum.splits)

lemma ambit_device_info_new_record:
  assumes "ambit_device_info_new env dev pl = Inr (Some r, pl')"
  shows "\<exists>d p. dev = Some d \<and> hid_path d = Some p \<and> path r = Some p
           \<and> vendor_id r = hid_vendor_id d \<and> product_id r = hid_product_id d
           \<and> libambit_device_support_known env (hid_vendor_id d) (hid_product_id d)
           \<and> (access_status r \<noteq> 0 \<longrightarrow>
                hid_open_path env p = None
                \<and> model r = replicate (LIBAMBIT_MODEL_NAME_LENGTH env + 1) 0
                \<and> fw_version r = (0, 0, 0, 0) \<and> hw_version r = (0, 0, 0, 0)
                \<and> \<not> is_supported r)"
  using assms
  by (auto simp add: ambit_device_info_new_def calloc_device_info_def Let_def
      split: option.splits if_splits prod.splits sum.splits
      dest!: device_info_get_frame)

lemma enumerate_loop_inv:
  assumes "enumerate_loop env devs heap devices pl = Inr (heap', devices', pl')"
    and "single_headed heap devices"
    and "\<forall>x\<in>set heap. P (fst x)"
    and "\<And>d r pl pl'. d \<in> set devs \<Longrightarrow>
           ambit_device_info_new env (Some d) pl = Inr (Some r, pl') \<Longrightarrow> P r"
  shows "single_headed heap' devices' \<and> (\<forall>x\<in>set heap'. P (fst x))"
  using assms
proof (induction devs arbitrary: heap devices pl)
  case Nil
  then show ?case by simp
next
  case (Cons current rest)
  from Cons.prems(1) obtain res pl1 where
    new: "ambit_device_info_new env (Some current) pl = Inr (res, pl1)"
    by (auto split: sum.splits)
  have step: "\<And>d r pl pl'. d \<in> set rest \<Longrightarrow>
           ambit_device_info_new env (Some d) pl = Inr (Some r, pl') \<Longrightarrow> P r"
    using Cons.prems(4) by auto
  show ?case
  proof (cases res)
    case None
    with new Cons.prems(1) have "enumerate_loop env rest heap devices pl1 = Inr (heap', devices', pl')"
      by simp
    from Cons.IH [OF this Cons.prems(2) Cons.prems(3) step] show ?thesis by simp
  next
    case (Some r)
    with new Cons.prems(4) have Pr: "P r" by auto
    show ?thesis
    proof (cases devices)
      case None
      with Some new Cons.prems(1)
      have loop: "enumerate_loop env rest (heap @ [(r, None)]) (Some (length heap)) pl1
          = Inr (heap', devices', pl')"
        by (simp add: Let_def)
      have "single_headed (heap @ [(r, None)]) (Some (length heap))"
        by (simp add: single_headed_def)
      moreover have "\<forall>x\<in>set (heap @ [(r, None)]). P (fst x)"
        using Cons.prems(3) Pr by simp
      ultimately show ?thesis using Cons.IH [OF loop _ _ step] by simp
    next
      case (Some a)
      with \<open>res = Some r\<close> new Cons.prems(1)
      have loop: "enumerate_loop env rest (heap @ [(r, Some a)]) (Some a) pl1
          = Inr (heap', devices', pl')"
        by (simp add: Let_def)
      from Some Cons.prems(2) have "a < length heap" "snd (heap ! a) = None"
        by (simp_all add: single_headed_def)
      then have "single_headed (heap @ [(r, Some a)]) (Some a)"
        by (simp add: single_headed_def nth_append)
      moreover have "\<forall>x\<in>set (heap @ [(r, Some a)]). P (fst x)"
        using Cons.prems(3) Pr by simp
      ultimately show ?thesis using Cons.IH [OF loop _ _ step] by simp
    qed
  qed
qed

lemma list_from_single_headed:
  "single_headed heap devices \<Longrightarrow>
   list_from heap (length heap) devices
     = (case devices of None \<Rightarrow> [] | Some a \<Rightarrow> [fst (heap ! a)])"
proof (cases devices)
  case None
  then show ?thesis by (cases "length heap") simp_all
next
  case (Some a)
  assume "single_headed heap devices"
  with Some have a: "a < length heap" "snd (heap ! a) = None"
    by (simp_all add: single_headed_def)
  then obtain k where k: "length heap = Suc k" by (cases "length heap") simp_all
  have "list_from heap k None = []" by (cases k) simp_all
  with a k Some show ?thesis by simp
qed

lemma libambit_enumerate_records:
  assumes "libambit_enumerate env devs pl = Inr (recs, pl')"
    and "\<And>d r pl pl'. d \<in> set devs \<Longrightarrow>
           ambit_device_info_new env (Some d) pl = Inr (Some r, pl') \<Longrightarrow> P r"
  shows "length recs \<le> 1 \<and> (\<forall>r\<in>set recs. P r)"
proof (cases "devs = []")
  case True
  with assms(1) show ?thesis by (simp add: libambit_enumerate_def)
next
  case False
  with assms(1) obtain heap devices where
    loop: "enumerate_loop env devs [] None pl = Inr (heap, devices, pl')"
    and recs: "recs = list_from heap (length heap) devices"
    by (auto simp add: libambit_enumerate_def split: sum.splits)
  have "single_headed heap devices \<and> (\<forall>x\<in>set heap. P (fst x))"
  proof (rule enumerate_loop_inv [OF loop])
    show "single_headed [] None" by (simp add: single_headed_def)
    show "\<forall>x\<in>set []. P (fst x)" by simp
    show "\<And>d r pl pl'. d \<in> set devs \<Longrightarrow>
           ambit_device_info_new env (Some d) pl = Inr (Some r, pl') \<Longrightarrow> P r"
      by (rule assms(2))
  qed
  then have inv: "single_headed heap devices" and P: "\<forall>x\<in>set heap. P (fst x)" by simp_all
  show ?thesis
  proof (cases devices)
    case None
    with recs list_from_single_headed [OF inv] show ?thesis by simp
  next
    case (Some a)
    with inv have "a < length heap" by (simp add: single_headed_def)
    with P have "P (fst (heap ! a))" by simp
    with Some recs list_from_single_headed [OF inv] show ?thesis by simp
  qed
qed

lemma fixture_dev_b_record:
  "ambit_device_info_new fixture_env (Some fixture_dev_b) [] =
     Inr (Some \<lparr>name = [0x41, 0x6d, 0, 0, 0, 0, 0], model = [0, 0, 0, 0, 0],
                 serial = [0x39, 0, 0, 0, 0], fw_version = (0, 0, 0, 0),
                 hw_version = (0, 0, 0, 0), path = Some ''/dev/hidraw1'',
                 vendor_id = 0x1493, product_id = 0x1a, is_supported = False,
                 access_status = 13\<rparr>, [])"
  by code_simp

lemma fixture_dev_b_enumerated:
  "libambit_enumerate fixture_env [fixture_dev_b] [] =
     Inr ([\<lparr>name = [0x41, 0x6d, 0, 0, 0, 0, 0], model = [0, 0, 0, 0, 0],
             serial = [0x39, 0, 0, 0, 0], fw_version = (0, 0, 0, 0),
             hw_version = (0, 0, 0, 0), path = Some ''/dev/hidraw1'',
             vendor_id = 0x1493, product_id = 0x1a, is_supported = False,
             access_status = 13\<rparr>], [])"
  by code_simp

text \<open>
  C3, amended. Every identity record the pipeline produces, by \<open>ambit_device_info_new\<close>
  or in the list of \<open>libambit_enumerate\<close>, has a path; and when its access status is
  not zero, its model is all zero, its firmware and hardware versions are zero and its
  support flag is false. (Display name and serial are not in this list: they hold what
  the bus strings of the descriptor transcode to.)
\<close>

theorem identity_record_invariant:
  "ambit_device_info_new env dev pl = Inr (Some r, pl')
   \<or> (\<exists>recs. libambit_enumerate env devs pl = Inr (recs, pl') \<and> r \<in> set recs)
   \<longrightarrow> path r \<noteq> None
       \<and> (access_status r \<noteq> 0
            \<longrightarrow> model r = replicate (LIBAMBIT_MODEL_NAME_LENGTH env + 1) 0
                \<and> fw_version r = (0, 0, 0, 0) \<and> hw_version r = (0, 0, 0, 0)
                \<and> \<not> is_supported r)"
proof -
  let ?P = "\<lambda>r. path r \<noteq> None
       \<and> (access_status r \<noteq> 0
            \<longrightarrow> model r = replicate (LIBAMBIT_MODEL_NAME_LENGTH env + 1) 0
                \<and> fw_version r = (0, 0, 0, 0) \<and> hw_version r = (0, 0, 0, 0)
                \<and> \<not> is_supported r)"
  have one: "?P r'" if "ambit_device_info_new env dev' pl1 = Inr (Some r', pl2)"
    for dev' pl1 pl2 r'
    using ambit_device_info_new_record [OF that] by auto
  have "?P r" if "libambit_enumerate env devs pl = Inr (recs, pl')" "r \<in> set recs" for recs
  proof -
    have "length recs \<le> 1 \<and> (\<forall>r\<in>set recs. ?P r)"
      by (rule libambit_enumerate_records [OF that(1)]) (rule one)
    with that(2) show ?thesis by blast
  qed
  with one [of dev pl r pl'] show ?thesis by blast
qed

theorem identity_record_invariant_witness:
  "ambit_device_info_new fixture_env (Some fixture_dev_b) [] =
     Inr (Some \<lparr>name = [0x41, 0x6d, 0, 0, 0, 0, 0], model = [0, 0, 0, 0, 0],
                 serial = [0x39, 0, 0, 0, 0], fw_version = (0, 0, 0, 0),
                 hw_version = (0, 0, 0, 0), path = Some ''/dev/hidraw1'',
                 vendor_id = 0x1493, product_id = 0x1a, is_supported = False,
                 access_status = 13\<rparr>, [])
   \<and> [0, 0, 0, 0, 0] = replicate (LIBAMBIT_MODEL_NAME_LENGTH fixture_env + 1) (0 :: byte)"
  using identity_record_invariant [of fixture_env "Some fixture_dev_b" "[]"
      "\<lparr>name = [0x41, 0x6d, 0, 0, 0, 0, 0], model = [0, 0, 0, 0, 0],
        serial = [0x39, 0, 0, 0, 0], fw_version = (0, 0, 0, 0),
        hw_version = (0, 0, 0, 0), path = Some ''/dev/hidraw1'',
        vendor_id = 0x1493, product_id = 0x1a, is_supported = False,
        access_status = 13\<rparr>" "[]"]
    fixture_dev_b_record
  by simp

text \<open>
  C3 as stated fails: the record of a device that cannot be opened (access status 13)
  carries the display name and the serial of the bus descriptor.
\<close>

theorem unopened_record_keeps_bus_strings:
  "libambit_enumerate fixture_env [fixture_dev_b] [] =
     Inr ([\<lparr>name = [0x41, 0x6d, 0, 0, 0, 0, 0], model = [0, 0, 0, 0, 0],
             serial = [0x39, 0, 0, 0, 0], fw_version = (0, 0, 0, 0),
             hw_version = (0, 0, 0, 0), path = Some ''/dev/hidraw1'',
             vendor_id = 0x1493, product_id = 0x1a, is_supported = False,
             access_status = 13\<rparr>], [])
   \<and> [0x41, 0x6d, 0, 0, 0, 0, 0] \<noteq> replicate (LIBAMBIT_PRODUCT_NAME_LENGTH fixture_env + 1) (0 :: byte)
   \<and> [0x39, 0, 0, 0, 0] \<noteq> replicate (LIBAMBIT_SERIAL_LENGTH fixture_env + 1) (0 :: byte)"
proof -
  have "[0x41, 0x6d, 0, 0, 0, 0, 0]
      \<noteq> replicate (LIBAMBIT_PRODUCT_NAME_LENGTH fixture_env + 1) (0 :: byte)"
    "[0x39, 0, 0, 0, 0] \<noteq> replicate (LIBAMBIT_SERIAL_LENGTH fixture_env + 1) (0 :: byte)"
    by code_simp+
  with fixture_dev_b_enumerated show ?thesis by simp
qed

text \<open>
  The list \<open>libambit_enumerate\<close> returns never has more than one record: once the head
  pointer is set, a new record gets \<^verbatim>\<open>next = devices\<close> but never becomes the head. A
  descriptor with an unknown vendor and product pair yields no record.
\<close>

lemma libambit_enumerate_at_most_one:
  "libambit_enumerate env devs pl = Inr (recs, pl') \<Longrightarrow> length recs \<le> 1"
  using libambit_enumerate_records [of env devs pl recs pl' "\<lambda>r. True"] by simp

lemma unknown_device_no_record:
  "\<not> libambit_device_support_known env (hid_vendor_id d) (hid_product_id d) \<Longrightarrow>
   ambit_device_info_new env (Some d) pl = Inr (None, pl)"
  by (simp add: ambit_device_info_new_def split: option.split)

lemma unknown_device_skipped:
  "ambit_device_info_new fixture_env (Some fixture_dev_c) [] = Inr (None, [])"
  by (rule unknown_device_no_record) (simp add: fixture_env_def fixture_dev_c_def)

text \<open>
  C1. The claim asks for one record per recognized descriptor, the most recently
  processed first. For two descriptors that the registry both recognizes the list
  returned holds the record of the first one only.
\<close>

theorem libambit_enumerate_keeps_first_only:
  "libambit_enumerate fixture_env [fixture_dev_a, fixture_dev_b] [] =
     Inr ([\<lparr>name = [0x41, 0x6d, 0x62, 0x69, 0x74, 0, 0], model = [0x50, 0x65, 0x61, 0x6b, 0],
             serial = [0x37, 0, 0, 0, 0], fw_version = (1, 2, 3, 4),
             hw_version = (4, 3, 2, 1), path = Some ''/dev/hidraw0'',
             vendor_id = 0x1493, product_id = 0x10, is_supported = True,
             access_status = 0\<rparr>], [])
   \<and> libambit_device_support_known fixture_env
         (hid_vendor_id fixture_dev_a) (hid_product_id fixture_dev_a)
   \<and> libambit_device_support_known fixture_env
         (hid_vendor_id fixture_dev_b) (hid_product_id fixture_dev_b)"
  by code_simp


subsection \<open>wcs2nutf8\<close>

lemma utf8_lead_nonzero: "utf8_lead step \<noteq> 0"
  by (simp add: utf8_lead_def)

lemma utf8_tail_nonzero: "0 \<notin> set (utf8_tail k wc)"
  by (induction k) (simp_all add: or_eq_0_iff)

lemma ucast_small_nonzero:
  assumes "wc \<noteq> 0" "wc < 0x80"
  shows "(ucast (wc :: wchar) :: byte) \<noteq> 0"
proof
  assume z: "(ucast wc :: byte) = 0"
  have "unat wc < 2 ^ 8" using assms(2) by (simp add: word_less_nat_alt)
  then have "take_bit 8 (unat wc) = unat wc" by (rule take_bit_nat_eq_self)
  moreover have "unat (ucast wc :: byte) = take_bit 8 (unat wc)"
    by (simp add: unsigned_ucast_eq)
  ultimately have "unat wc = 0" using z by simp
  with assms(1) show False by (simp add: unat_eq_0)
qed

lemma utf8_encode_nonzero:
  "wc \<noteq> 0 \<Longrightarrow> utf8_encode wc = Some bs \<Longrightarrow> 0 \<notin> set bs"
  by (auto simp add: utf8_encode_def ucast_small_nonzero utf8_tail_nonzero or_eq_0_iff
      utf8_lead_nonzero split: if_splits)

lemma utf8_encode_nonempty: "utf8_encode wc = Some bs \<Longrightarrow> 0 < length bs"
  by (auto simp add: utf8_encode_def split: if_splits)

lemma utf8_text_append:
  "utf8_text (xs @ ys) =
     (case utf8_text xs of
        None \<Rightarrow> None
      | Some a \<Rightarrow> (case utf8_text ys of None \<Rightarrow> None | Some b \<Rightarrow> Some (a @ b)))"
  by (induction xs) (auto split: option.splits)

lemma utf8_text_prefix:
  assumes "utf8_text (take m ws) = Some full" "j \<le> m"
  shows "\<exists>t. utf8_text (take j ws) = Some t"
proof -
  have "take m ws = take j ws @ take (m - j) (drop j ws)"
    using assms(2) by (metis le_add_diff_inverse take_add)
  with assms(1) utf8_text_append [of "take j ws" "take (m - j) (drop j ws)"]
  show ?thesis by (auto split: option.splits)
qed

lemma utf8_text_nonzero:
  "0 \<notin> set ws \<Longrightarrow> utf8_text ws = Some t \<Longrightarrow> 0 \<notin> set t"
proof (induction ws arbitrary: t)
  case Nil
  then show ?case by simp
next
  case (Cons wc ws)
  from Cons.prems(2) obtain bs t' where
    e: "utf8_encode wc = Some bs" and r: "utf8_text ws = Some t'" and t: "t = bs @ t'"
    by (auto split: option.splits)
  from Cons.prems(1) e have "0 \<notin> set bs" by (auto dest: utf8_encode_nonzero)
  moreover from Cons.prems(1) r have "0 \<notin> set t'" by (auto dest: Cons.IH)
  ultimately show ?case using t by simp
qed

text \<open>\<open>iconv\<close> succeeds exactly on a valid text that fits.\<close>

lemma iconv_fits:
  "utf8_text ws = Some t \<Longrightarrow> length t \<le> olen \<Longrightarrow> iconv ws olen = (None, t)"
proof (induction ws arbitrary: t olen)
  case Nil
  then show ?case by simp
next
  case (Cons wc ws)
  from Cons.prems(1) obtain bs t' where
    e: "utf8_encode wc = Some bs" and r: "utf8_text ws = Some t'" and t: "t = bs @ t'"
    by (auto split: option.splits)
  from e have "0 < length bs" by (rule utf8_encode_nonempty)
  moreover from t have "length t = length bs + length t'" by simp
  ultimately have "olen \<noteq> 0" "\<not> olen < length bs" "length t' \<le> olen - length bs"
    using Cons.prems(2) by linarith+
  with Cons.IH [OF r, of "olen - length bs"] e t show ?case by simp
qed

lemma iconv_too_big:
  "utf8_text ws = Some t \<Longrightarrow> olen < length t \<Longrightarrow> fst (iconv ws olen) = Some E2BIG"
proof (induction ws arbitrary: t olen)
  case Nil
  then show ?case by simp
next
  case (Cons wc ws)
  from Cons.prems(1) obtain bs t' where
    e: "utf8_encode wc = Some bs" and r: "utf8_text ws = Some t'" and t: "t = bs @ t'"
    by (auto split: option.splits)
  show ?case
  proof (cases "olen = 0 \<or> olen < length bs")
    case True
    with e show ?thesis by auto
  next
    case False
    moreover from t have "length t = length bs + length t'" by simp
    ultimately have "olen - length bs < length t'" using Cons.prems(2) by linarith
    from Cons.IH [OF r this] False e show ?thesis
      by (simp add: split_beta)
  qed
qed

lemma iconv_too_big_append:
  "fst (iconv xs olen) = Some E2BIG \<Longrightarrow> fst (iconv (xs @ ys) olen) = Some E2BIG"
proof (induction xs arbitrary: olen)
  case Nil
  then show ?case by simp
next
  case (Cons wc xs)
  show ?case
  proof (cases "olen = 0")
    case True
    then show ?thesis by simp
  next
    case False
    show ?thesis
    proof (cases "utf8_encode wc")
      case None
      with False Cons.prems show ?thesis by simp
    next
      case (Some bs)
      show ?thesis
      proof (cases "olen < length bs")
        case True
        with False Some show ?thesis by simp
      next
        case fits: False
        with False Some Cons.prems have "fst (iconv xs (olen - length bs)) = Some E2BIG"
          by (simp add: split_beta)
        from Cons.IH [OF this] False Some fits show ?thesis
          by (simp add: split_beta)
      qed
    qed
  qed
qed

lemma iconv_success:
  "iconv ws olen = (None, out) \<Longrightarrow> utf8_text ws = Some out \<and> length out \<le> olen"
proof (induction ws arbitrary: out olen)
  case Nil
  then show ?case by simp
next
  case (Cons wc ws)
  from Cons.prems obtain bs where e: "utf8_encode wc = Some bs"
    and ok: "olen \<noteq> 0" "\<not> olen < length bs"
    by (auto split: if_splits option.splits)
  with Cons.prems obtain out' where r: "iconv ws (olen - length bs) = (None, out')"
    and out: "out = bs @ out'"
    by (auto split: prod.splits)
  from Cons.IH [OF r] have "utf8_text ws = Some out'" "length out' \<le> olen - length bs"
    by simp_all
  moreover from out have "length out = length bs + length out'" by simp
  ultimately have "utf8_text (wc # ws) = Some out" "length out \<le> olen"
    using e ok out by simp_all
  then show ?case by simp
qed

text \<open>An invalid character met while there is room left stops \<open>iconv\<close> with \<^verbatim>\<open>EILSEQ\<close>.\<close>

lemma iconv_invalid:
  "i < length ws \<Longrightarrow> utf8_encode (ws ! i) = None \<Longrightarrow> utf8_text (take i ws) = Some t \<Longrightarrow>
   length t < olen \<Longrightarrow> fst (iconv ws olen) = Some EILSEQ"
proof (induction ws arbitrary: i t olen)
  case Nil
  then show ?case by simp
next
  case (Cons wc ws)
  show ?case
  proof (cases i)
    case 0
    with Cons.prems show ?thesis by simp
  next
    case (Suc j)
    with Cons.prems(3) obtain bs t' where
      e: "utf8_encode wc = Some bs" and r: "utf8_text (take j ws) = Some t'" and t: "t = bs @ t'"
      by (auto split: option.splits)
    from t have "length t = length bs + length t'" by simp
    with Cons.prems(4) have ok: "olen \<noteq> 0" "\<not> olen < length bs"
      and room: "length t' < olen - length bs" by linarith+
    from Suc Cons.prems(1,2) have "j < length ws" "utf8_encode (ws ! j) = None" by simp_all
    from Cons.IH [OF this r room] e ok show ?thesis
      by (simp add: split_beta)
  qed
qed

lemma iconv_outcomes:
  "fst (iconv ws olen) = None \<or> fst (iconv ws olen) = Some E2BIG
   \<or> fst (iconv ws olen) = Some EILSEQ"
  by (metis iconv_errno.exhaust option.exhaust)

text \<open>
  The loop ends at the largest \<open>j \<le> k\<close> at which \<open>iconv\<close> does not report \<^verbatim>\<open>E2BIG\<close>,
  with the text of the first \<open>j\<close> characters or, after \<^verbatim>\<open>EILSEQ\<close>, with the empty string.
\<close>

lemma wcs2nutf8_loop_result:
  "\<exists>j\<le>k. (\<forall>j'. j < j' \<and> j' \<le> k \<longrightarrow> fst (iconv (take j' src) n) = Some E2BIG)
     \<and> ((\<exists>out. iconv (take j src) n = (None, out)
              \<and> wcs2nutf8_loop src n (Suc k) = (None, out @ [0]))
         \<or> (fst (iconv (take j src) n) = Some EILSEQ
              \<and> wcs2nutf8_loop src n (Suc k) = (Some EILSEQ, [0])))"
proof (induction k)
  case 0
  have "wcs2nutf8_loop src n (Suc 0) = (None, [0])"
    by (subst wcs2nutf8_loop.simps) simp
  then show ?case by simp
next
  case (Suc k)
  obtain e out where io: "iconv (take (Suc k) src) n = (e, out)"
    by (cases "iconv (take (Suc k) src) n")
  consider (ok) "e = None" | (big) "e = Some E2BIG" | (seq) "e = Some EILSEQ"
    using iconv_outcomes [of "take (Suc k) src" n] io by auto
  then show ?case
  proof cases
    case ok
    with io have "wcs2nutf8_loop src n (Suc (Suc k)) = (None, out @ [0])"
      by (subst wcs2nutf8_loop.simps) simp
    with io ok show ?thesis by (intro exI [of _ "Suc k"]) auto
  next
    case seq
    with io have "wcs2nutf8_loop src n (Suc (Suc k)) = (Some EILSEQ, [0])"
      by (subst wcs2nutf8_loop.simps) simp
    with io seq show ?thesis by (intro exI [of _ "Suc k"]) auto
  next
    case big
    with io have same: "wcs2nutf8_loop src n (Suc (Suc k)) = wcs2nutf8_loop src n (Suc k)"
      by (subst wcs2nutf8_loop.simps) simp
    from Suc.IH obtain j where j: "j \<le> k"
      and above: "\<forall>j'. j < j' \<and> j' \<le> k \<longrightarrow> fst (iconv (take j' src) n) = Some E2BIG"
      and res: "(\<exists>out. iconv (take j src) n = (None, out)
              \<and> wcs2nutf8_loop src n (Suc k) = (None, out @ [0]))
         \<or> (fst (iconv (take j src) n) = Some EILSEQ
              \<and> wcs2nutf8_loop src n (Suc k) = (Some EILSEQ, [0]))"
      by blast
    have "\<forall>j'. j < j' \<and> j' \<le> Suc k \<longrightarrow> fst (iconv (take j' src) n) = Some E2BIG"
    proof (intro allI impI)
      fix j' assume a: "j < j' \<and> j' \<le> Suc k"
      show "fst (iconv (take j' src) n) = Some E2BIG"
      proof (cases "j' = Suc k")
        case True
        with io big show ?thesis by simp
      next
        case False
        with a above show ?thesis by simp
      qed
    qed
    with j res same show ?thesis by (intro exI [of _ j]) simp
  qed
qed

lemma take_wcslen_nonzero: "k \<le> wcslen src \<Longrightarrow> 0 \<notin> set (take k src)"
proof -
  assume k: "k \<le> wcslen src"
  have "takeWhile (\<lambda>wc. wc \<noteq> 0) src = take (wcslen src) src"
    unfolding wcslen_def by (rule takeWhile_eq_take)
  then have "0 \<notin> set (take (wcslen src) src)"
    by (metis (mono_tags, lifting) set_takeWhileD)
  moreover from k have "set (take k src) \<subseteq> set (take (wcslen src) src)"
    by (rule set_take_subset_set_take)
  ultimately show ?thesis by blast
qed

lemma wcs2nutf8_loop_text:
  "\<exists>e r k. wcs2nutf8_loop src n (Suc (wcslen src)) = (e, r @ [0])
     \<and> k \<le> wcslen src \<and> utf8_text (take k src) = Some r \<and> length r \<le> n \<and> 0 \<notin> set r
     \<and> (utf8_text (take (wcslen src) src) \<noteq> None
          \<longrightarrow> k = wcslen src \<or> (\<exists>r'. utf8_text (take (Suc k) src) = Some r' \<and> n < length r'))
     \<and> (\<forall>i t. i \<le> wcslen src \<and> utf8_text (take i src) = Some t \<and> n < length t
            \<longrightarrow> (\<exists>r'. utf8_text (take (Suc k) src) = Some r' \<and> n < length r'))
     \<and> (\<forall>i t. i < wcslen src \<and> utf8_encode (src ! i) = None
                \<and> utf8_text (take i src) = Some t \<and> length t < n \<longrightarrow> r = [])"
proof -
  let ?W = "wcslen src"
  have W: "?W \<le> length src" by (simp add: wcslen_def length_takeWhile_le)
  from wcs2nutf8_loop_result [of ?W src n] obtain j where j: "j \<le> ?W"
    and above: "\<forall>j'. j < j' \<and> j' \<le> ?W \<longrightarrow> fst (iconv (take j' src) n) = Some E2BIG"
    and res: "(\<exists>out. iconv (take j src) n = (None, out)
              \<and> wcs2nutf8_loop src n (Suc ?W) = (None, out @ [0]))
         \<or> (fst (iconv (take j src) n) = Some EILSEQ
              \<and> wcs2nutf8_loop src n (Suc ?W) = (Some EILSEQ, [0]))"
    by blast
  have invalid: "fst (iconv (take j' src) n) = Some EILSEQ"
    if "i < ?W" "utf8_encode (src ! i) = None" "utf8_text (take i src) = Some t" "length t < n"
      "i < j'" "j' \<le> ?W" for i t j'
  proof (rule iconv_invalid [of i _ t])
    from that W show "i < length (take j' src)" by simp
    from that show "utf8_encode (take j' src ! i) = None" by simp
    from that show "utf8_text (take i (take j' src)) = Some t" by (simp add: min_absorb1)
    from that show "length t < n" by simp
  qed
  have stops_before: "j < i"
    if "i \<le> ?W" "utf8_text (take i src) = Some t" "n < length t" for i t
  proof (rule ccontr)
    assume "\<not> j < i"
    then have "take j src = take i src @ take (j - i) (drop i src)"
      by (metis le_add_diff_inverse not_less take_add)
    moreover from that have "fst (iconv (take i src) n) = Some E2BIG"
      by (intro iconv_too_big)
    ultimately have "fst (iconv (take j src) n) = Some E2BIG"
      by (simp add: iconv_too_big_append)
    with res show False by auto
  qed
  have cut: "\<exists>r'. utf8_text (take (Suc j) src) = Some r' \<and> n < length r'"
    if "i \<le> ?W" "utf8_text (take i src) = Some t" "n < length t" for i t
  proof -
    from stops_before [OF that] have sj: "Suc j \<le> i" by simp
    from utf8_text_prefix [OF that(2) sj] obtain r' where
      r': "utf8_text (take (Suc j) src) = Some r'" by blast
    from above sj that(1) have "fst (iconv (take (Suc j) src) n) = Some E2BIG" by simp
    with iconv_fits [OF r', of n] have "n < length r'" by (cases "length r' \<le> n") simp_all
    with r' show ?thesis by blast
  qed
  from res show ?thesis
  proof
    assume "\<exists>out. iconv (take j src) n = (None, out)
              \<and> wcs2nutf8_loop src n (Suc ?W) = (None, out @ [0])"
    then obtain out where io: "iconv (take j src) n = (None, out)"
      and loop: "wcs2nutf8_loop src n (Suc ?W) = (None, out @ [0])" by blast
    from iconv_success [OF io] have tj: "utf8_text (take j src) = Some out"
      and len: "length out \<le> n" by simp_all
    from take_wcslen_nonzero [OF j] tj have nz: "0 \<notin> set out"
      by (rule utf8_text_nonzero)
    have longest: "j = ?W \<or> (\<exists>r'. utf8_text (take (Suc j) src) = Some r' \<and> n < length r')"
      if valid: "utf8_text (take ?W src) \<noteq> None"
    proof (cases "j = ?W")
      case True
      then show ?thesis by simp
    next
      case False
      with j have sj: "Suc j \<le> ?W" by simp
      from valid obtain full where "utf8_text (take ?W src) = Some full" by auto
      from utf8_text_prefix [OF this sj] obtain r' where
        r': "utf8_text (take (Suc j) src) = Some r'" by blast
      from above sj have "fst (iconv (take (Suc j) src) n) = Some E2BIG" by simp
      with iconv_fits [OF r', of n] have "n < length r'" by (cases "length r' \<le> n") simp_all
      with r' False show ?thesis by simp
    qed
    have empty: "out = []"
      if "i < ?W" "utf8_encode (src ! i) = None" "utf8_text (take i src) = Some t" "length t < n"
      for i t
    proof (cases "i < j")
      case True
      from invalid [OF that True j] io show ?thesis by simp
    next
      case False
      with that(1) have "j < ?W" by simp
      with above have "fst (iconv (take ?W src) n) = Some E2BIG" by simp
      moreover from invalid [OF that that(1)] have "fst (iconv (take ?W src) n) = Some EILSEQ"
        by simp
      ultimately show ?thesis by simp
    qed
    from loop j tj len nz longest cut empty show ?thesis by blast
  next
    assume a: "fst (iconv (take j src) n) = Some EILSEQ
              \<and> wcs2nutf8_loop src n (Suc ?W) = (Some EILSEQ, [0])"
    have no_text: "utf8_text (take j src) = None"
    proof (cases "utf8_text (take j src)")
      case None
      then show ?thesis .
    next
      case (Some t)
      from a iconv_fits [OF Some, of n] iconv_too_big [OF Some, of n] have False
        by (cases "length t \<le> n") simp_all
      then show ?thesis ..
    qed
    have longest: "0 = ?W \<or> (\<exists>r'. utf8_text (take (Suc 0) src) = Some r' \<and> n < length r')"
      if valid: "utf8_text (take ?W src) \<noteq> None"
    proof -
      from valid obtain full where "utf8_text (take ?W src) = Some full" by auto
      from utf8_text_prefix [OF this j] no_text have False by simp
      then show ?thesis ..
    qed
    have cut0: "\<exists>r'. utf8_text (take (Suc 0) src) = Some r' \<and> n < length r'"
      if "i \<le> ?W" "utf8_text (take i src) = Some t" "n < length t" for i t
    proof -
      from stops_before [OF that] have "j \<le> i" by simp
      from utf8_text_prefix [OF that(2) this] no_text have False by simp
      then show ?thesis ..
    qed
    from a have "wcs2nutf8_loop src n (Suc ?W) = (Some EILSEQ, [] @ [0])" by simp
    moreover have "utf8_text (take 0 src) = Some []" by simp
    ultimately show ?thesis using longest cut0
      by (intro exI [of _ "Some EILSEQ"] exI [of _ "[]"] exI [of _ 0]) auto
  qed
qed

lemma strncpy_terminated_text:
  assumes "0 \<notin> set r" "length r \<le> n"
  shows "strncpy dest (r @ [0]) n = r @ replicate (n - length r) 0 @ drop n dest"
proof -
  from assms(1) have "cstr (r @ [0]) = r" by (rule cstr_append_nul)
  with assms(2) show ?thesis by (simp add: strncpy_def)
qed

text \<open>
  What the code does keep of the contract of \<open>wcs2nutf8\<close>, whatever the input. When
  it gets its conversion descriptor and its buffer, it returns a NUL-terminated string
  of at most \<open>n\<close> octets without a NUL inside, the UTF-8 text of the first \<open>k\<close> wide
  characters of the input for some \<open>k\<close> (whole characters, never part of a sequence),
  and \<open>dest\<close> holds that string padded with NULs up to \<open>n\<close> octets. If every
  character of the input is valid, or the valid characters at its start already have a
  text longer than \<open>n\<close> octets, \<open>k\<close> is the largest number of characters whose text
  fits in \<open>n\<close> octets. If an invalid character is met while fewer than \<open>n\<close> octets
  are written, the string is empty. Without the descriptor or the buffer the function
  returns null and leaves \<open>dest\<close> alone.
\<close>

lemma wcs2nutf8_bounded:
  "(fst (acquire pl) \<and> fst (acquire (snd (acquire pl)))
    \<longrightarrow> (\<exists>r k. wcs2nutf8 dest src n pl
                 = ((Some (r @ [0]), r @ replicate (n - length r) 0 @ drop n dest),
                    snd (acquire (snd (acquire pl))))
           \<and> k \<le> wcslen src \<and> utf8_text (take k src) = Some r
           \<and> length r \<le> n \<and> 0 \<notin> set r
           \<and> (utf8_text (take (wcslen src) src) \<noteq> None
                \<longrightarrow> k = wcslen src
                    \<or> (\<exists>r'. utf8_text (take (Suc k) src) = Some r' \<and> n < length r'))
           \<and> (\<forall>i t. i \<le> wcslen src \<and> utf8_text (take i src) = Some t \<and> n < length t
                  \<longrightarrow> (\<exists>r'. utf8_text (take (Suc k) src) = Some r' \<and> n < length r'))
           \<and> (\<forall>i t. i < wcslen src \<and> utf8_encode (src ! i) = None
                      \<and> utf8_text (take i src) = Some t \<and> length t < n \<longrightarrow> r = [])))
   \<and> (\<not> (fst (acquire pl) \<and> fst (acquire (snd (acquire pl))))
      \<longrightarrow> fst (wcs2nutf8 dest src n pl) = (None, dest))"
proof (intro conjI impI)
  assume ok: "fst (acquire pl) \<and> fst (acquire (snd (acquire pl)))"
  from wcs2nutf8_loop_text [of src n] obtain e r k where
    loop: "wcs2nutf8_loop src n (Suc (wcslen src)) = (e, r @ [0])"
    and props: "k \<le> wcslen src" "utf8_text (take k src) = Some r" "length r \<le> n" "0 \<notin> set r"
      "utf8_text (take (wcslen src) src) \<noteq> None
          \<longrightarrow> k = wcslen src \<or> (\<exists>r'. utf8_text (take (Suc k) src) = Some r' \<and> n < length r')"
      "\<forall>i t. i \<le> wcslen src \<and> utf8_text (take i src) = Some t \<and> n < length t
            \<longrightarrow> (\<exists>r'. utf8_text (take (Suc k) src) = Some r' \<and> n < length r')"
      "\<forall>i t. i < wcslen src \<and> utf8_encode (src ! i) = None
                \<and> utf8_text (take i src) = Some t \<and> length t < n \<longrightarrow> r = []"
    by blast
  from ok loop have "wcs2nutf8 dest src n pl
      = ((Some (r @ [0]), strncpy dest (r @ [0]) n), snd (acquire (snd (acquire pl))))"
    by (simp add: wcs2nutf8_def split_beta)
  with strncpy_terminated_text [OF props(4) props(3), of dest]
  have "wcs2nutf8 dest src n pl
      = ((Some (r @ [0]), r @ replicate (n - length r) 0 @ drop n dest),
         snd (acquire (snd (acquire pl))))"
    by simp
  with props show "\<exists>r k. wcs2nutf8 dest src n pl
                 = ((Some (r @ [0]), r @ replicate (n - length r) 0 @ drop n dest),
                    snd (acquire (snd (acquire pl))))
           \<and> k \<le> wcslen src \<and> utf8_text (take k src) = Some r
           \<and> length r \<le> n \<and> 0 \<notin> set r
           \<and> (utf8_text (take (wcslen src) src) \<noteq> None
                \<longrightarrow> k = wcslen src
                    \<or> (\<exists>r'. utf8_text (take (Suc k) src) = Some r' \<and> n < length r'))
           \<and> (\<forall>i t. i \<le> wcslen src \<and> utf8_text (take i src) = Some t \<and> n < length t
                  \<longrightarrow> (\<exists>r'. utf8_text (take (Suc k) src) = Some r' \<and> n < length r'))
           \<and> (\<forall>i t. i < wcslen src \<and> utf8_encode (src ! i) = None
                      \<and> utf8_text (take i src) = Some t \<and> length t < n \<longrightarrow> r = [])"
    by blast
next
  assume "\<not> (fst (acquire pl) \<and> fst (acquire (snd (acquire pl))))"
  then show "fst (wcs2nutf8 dest src n pl) = (None, dest)"
    by (auto simp add: wcs2nutf8_def split_beta)
qed

lemma fixture_texts:
  "wcslen [0x41, 0x20AC, 0x42] = 3"
  "utf8_text (take 3 [0x41, 0x20AC, 0x42]) \<noteq> None"
  "utf8_text (take 0 [0x41, 0x20AC, 0x42]) = Some []"
  "utf8_text (take 1 [0x41, 0x20AC, 0x42]) = Some [0x41]"
  "utf8_text (take 2 [0x41, 0x20AC, 0x42]) = Some [0x41, 0xe2, 0x82, 0xac]"
  "utf8_text (take 3 [0x41, 0x20AC, 0x42]) = Some [0x41, 0xe2, 0x82, 0xac, 0x42]"
  "wcslen [0x41, 0xD800] = 2"
  "utf8_encode ([0x41, 0xD800] ! 1) = None"
  "utf8_text (take 1 [0x41, 0xD800]) = Some [0x41]"
  by code_simp+

lemma wcs2nutf8_bounded_examples:
  "wcs2nutf8 (replicate 4 0) [0x41, 0x20AC, 0x42] 3 [] = ((Some [0x41, 0], [0x41, 0, 0, 0]), [])
   \<and> wcs2nutf8 (replicate 3 0) [0x41, 0xD800] 2 [] = ((Some [0], [0, 0, 0]), [])
   \<and> fst (wcs2nutf8 (replicate 3 0) [0x41] 2 [True, False]) = (None, replicate 3 0)"
proof -
  let ?src = "[0x41, 0x20AC, 0x42] :: wchar list"
  have pre: "fst (acquire []) \<and> fst (acquire (snd (acquire [])))" by simp
  from wcs2nutf8_bounded [of "[]" "replicate 4 0" ?src 3, THEN conjunct1, THEN mp, OF pre]
  obtain r k where
    res: "wcs2nutf8 (replicate 4 0) ?src 3 []
        = ((Some (r @ [0]), r @ replicate (3 - length r) 0 @ drop 3 (replicate 4 0)),
           snd (acquire (snd (acquire []))))"
    and k: "k \<le> wcslen ?src" and r: "utf8_text (take k ?src) = Some r"
    and len: "length r \<le> 3"
    and longest: "utf8_text (take (wcslen ?src) ?src) \<noteq> None
       \<longrightarrow> k = wcslen ?src \<or> (\<exists>r'. utf8_text (take (Suc k) ?src) = Some r' \<and> 3 < length r')"
    by blast
  from longest fixture_texts(1,2)
  have longest': "k = 3 \<or> (\<exists>r'. utf8_text (take (Suc k) ?src) = Some r' \<and> 3 < length r')"
    by (simp only:) simp
  from k fixture_texts(1) have "k \<le> 3" by (simp only:)
  then consider "k = 0" | "k = 1" | "k = 2" | "k = 3" by linarith
  then have "r = [0x41]"
  proof cases
    case 1
    with longest' have "\<exists>r'. utf8_text (take (Suc 0) ?src) = Some r' \<and> 3 < length r'" by simp
    moreover have "utf8_text (take (Suc 0) ?src) = Some [0x41]"
      using fixture_texts(4) by (simp only: One_nat_def)
    ultimately show ?thesis by simp
  next
    case 2
    with r fixture_texts(4) show ?thesis by (simp only: option.inject)
  next
    case 3
    with r fixture_texts(5) have "r = [0x41, 0xe2, 0x82, 0xac]" by (simp only: option.inject)
    with len show ?thesis by simp
  next
    case 4
    with r fixture_texts(6) have "r = [0x41, 0xe2, 0x82, 0xac, 0x42]"
      by (simp only: option.inject)
    with len show ?thesis by simp
  qed
  with res have a: "wcs2nutf8 (replicate 4 0) ?src 3 [] = ((Some [0x41, 0], [0x41, 0, 0, 0]), [])"
    by (simp add: numeral_eq_Suc)
  let ?bad = "[0x41, 0xD800] :: wchar list"
  from wcs2nutf8_bounded [of "[]" "replicate 3 0" ?bad 2, THEN conjunct1, THEN mp, OF pre]
  obtain r' where
    res': "wcs2nutf8 (replicate 3 0) ?bad 2 []
        = ((Some (r' @ [0]), r' @ replicate (2 - length r') 0 @ drop 2 (replicate 3 0)),
           snd (acquire (snd (acquire []))))"
    and inv: "\<forall>i t. i < wcslen ?bad \<and> utf8_encode (?bad ! i) = None
                      \<and> utf8_text (take i ?bad) = Some t \<and> length t < 2 \<longrightarrow> r' = []"
    by blast
  have "1 < wcslen ?bad \<and> utf8_encode (?bad ! 1) = None
      \<and> utf8_text (take 1 ?bad) = Some [0x41] \<and> length [0x41 :: byte] < 2"
    using fixture_texts(7,8,9) by (simp only:) simp
  with inv have "r' = []" by blast
  with res' have b: "wcs2nutf8 (replicate 3 0) ?bad 2 [] = ((Some [0], [0, 0, 0]), [])"
    by (simp add: numeral_eq_Suc)
  have "\<not> (fst (acquire [True, False]) \<and> fst (acquire (snd (acquire [True, False]))))"
    by simp
  from wcs2nutf8_bounded [of "[True, False]" "replicate 3 0" "[0x41]" 2,
      THEN conjunct2, THEN mp, OF this]
  have c: "fst (wcs2nutf8 (replicate 3 0) [0x41] 2 [True, False]) = (None, replicate 3 0)" .
  from a b c show ?thesis by simp
qed

text \<open>
  C7. The claim, like the comment above \<open>wcs2nutf8\<close> in the source, promises the
  empty string for an input that cannot be decoded. The loop does write the empty
  string after an error other than \<^verbatim>\<open>E2BIG\<close>, but it first retries with a shorter
  input after every \<^verbatim>\<open>E2BIG\<close>, and so never meets an invalid character that lies at
  or behind the point where the output is full. Two inputs with a surrogate, neither
  decodable as a whole, come out as the one-letter string with a bound of one octet.
\<close>

theorem wcs2nutf8_invalid_beyond_bound:
  "wcs2nutf8 (replicate 2 0) [0x41, 0x42, 0xD800] 1 [] = ((Some [0x41, 0], [0x41, 0]), [])
   \<and> wcs2nutf8 (replicate 2 0) [0x41, 0xD800] 1 [] = ((Some [0x41, 0], [0x41, 0]), [])
   \<and> utf8_encode 0xD800 = None
   \<and> utf8_text [0x41, 0x42, 0xD800] = None
   \<and> utf8_text [0x41, 0xD800] = None"
  by code_simp

end
